theory Spec2Isabelle
  imports Main "HOL-Library.Word"
begin

section \<open>Strings, bytes and the library functions the code calls\<close>

text \<open>
  Python \<open>bytes\<close> are lists of 8-bit words, Python \<open>str\<close> values are lists of
  characters. The escape sequences of \<open>kitty.py\<close> are built from the module constants
  \<open>_START = "\033_G"\<close> and \<open>_END = "\033\\"\<close>.
\<close>

type_synonym byte = "8 word"

definition ESC :: char where
  "ESC = CHR 0x1B"

definition BSL :: char where
  "BSL = CHR 0x5C"

definition START :: string where
  "START = ESC # ''_G''"

definition END' :: string where
  "END' = [ESC, BSL]"

text \<open>\<open>str(int)\<close>, as the f-strings of the source format integers.\<close>

definition digit_char :: "nat \<Rightarrow> char" where
  "digit_char d = char_of (48 + d)"

function show_nat :: "nat \<Rightarrow> string" where
  "show_nat n = (if n < 10 then [digit_char n] else show_nat (n div 10) @ [digit_char (n mod 10)])"
  by pat_completeness auto
termination
  by (relation "measure id") auto

declare show_nat.simps [simp del]

definition show_int :: "int \<Rightarrow> string" where
  "show_int i = (if i < 0 then CHR ''-'' # show_nat (nat (- i)) else show_nat (nat i))"

text \<open>
  \<open>base64.standard_b64encode\<close> (Python standard library): three bytes become four
  characters of the standard alphabet, a final group of one or two bytes is padded
  with \<open>=\<close>.
\<close>

definition b64_alphabet :: string where
  "b64_alphabet = ''ABCDEFGHIJKLMNOPQRSTUVWXYZabcdefghijklmnopqrstuvwxyz0123456789+/''"

definition b64c :: "nat \<Rightarrow> char" where
  "b64c n = b64_alphabet ! (n mod 64)"

fun standard_b64encode :: "byte list \<Rightarrow> string" where
  "standard_b64encode [] = []"
| "standard_b64encode [x] =
     [b64c (unat x div 4), b64c ((unat x mod 4) * 16), CHR ''='', CHR ''='']"
| "standard_b64encode [x, y] =
     [b64c (unat x div 4), b64c ((unat x mod 4) * 16 + unat y div 16),
      b64c ((unat y mod 16) * 4), CHR ''='']"
| "standard_b64encode (x # y # z # rest) =
     [b64c (unat x div 4), b64c ((unat x mod 4) * 16 + unat y div 16),
      b64c ((unat y mod 16) * 4 + unat z div 64), b64c (unat z mod 64)]
     @ standard_b64encode rest"

text \<open>
  \<open>io.StringIO.read(size)\<close> / \<open>io.BytesIO.read(size)\<close>: at most \<open>size\<close> items from
  the current position, everything that is left when \<open>size\<close> is negative. The result
  is the data read and the rest of the stream.
\<close>

definition read :: "int \<Rightarrow> 'a list \<Rightarrow> 'a list \<times> 'a list" where
  "read sz stream =
     (if sz < 0 then (stream, []) else (take (nat sz) stream, drop (nat sz) stream))"

section \<open>Control data (\<open>kitty.py\<close>, class \<open>ControlData\<close>)\<close>

text \<open>
  The dataclass fields, in declaration order: \<open>a f t s v z o C c r\<close>. Each is
  \<open>Optional\<close>; \<open>a\<close>, \<open>t\<close> and \<open>o\<close> hold strings, the others integers. The field
  names carry the prefix \<open>cd_\<close> here, as one-letter constants would capture the
  variables of every later statement.
\<close>

record ControlData =
  cd_a :: "string option"
  cd_f :: "int option"
  cd_t :: "string option"
  cd_s :: "int option"
  cd_v :: "int option"
  cd_z :: "int option"
  cd_o :: "string option"
  cd_C :: "int option"
  cd_c :: "int option"
  cd_r :: "int option"

definition a_TRANS_DISP :: string where "a_TRANS_DISP = ''T''"
definition C_MOVE :: int where "C_MOVE = 0"
definition C_STAY :: int where "C_STAY = 1"
definition f_RGB :: int where "f_RGB = 24"
definition f_RGBA :: int where "f_RGBA = 32"
definition f_PNG :: int where "f_PNG = 100"
definition o_ZLIB :: string where "o_ZLIB = ''z''"
definition t_DIRECT :: string where "t_DIRECT = ''d''"
definition t_FILE :: string where "t_FILE = ''f''"
definition z_IN_FRONT :: int where "z_IN_FRONT = 0"

text \<open>
  The generated \<open>__init__\<close> stores the ten arguments and calls \<open>__post_init__\<close>,
  which clears \<open>s\<close> and \<open>v\<close> for the PNG format.
\<close>

definition ControlData_post_init :: "ControlData \<Rightarrow> ControlData" where
  "ControlData_post_init cd =
     (if cd_f cd = Some f_PNG then cd\<lparr>cd_s := None, cd_v := None\<rparr> else cd)"

definition new_ControlData ::
  "string option \<Rightarrow> int option \<Rightarrow> string option \<Rightarrow> int option \<Rightarrow> int option \<Rightarrow>
   int option \<Rightarrow> string option \<Rightarrow> int option \<Rightarrow> int option \<Rightarrow> int option \<Rightarrow> ControlData" where
  "new_ControlData a f t s v z ob C c r =
     ControlData_post_init
       \<lparr>cd_a = a, cd_f = f, cd_t = t, cd_s = s, cd_v = v, cd_z = z, cd_o = ob,
        cd_C = C, cd_c = c, cd_r = r\<rparr>"

text \<open>The defaults of the dataclass: \<open>ControlData()\<close>.\<close>

definition default_ControlData :: ControlData where
  "default_ControlData =
     new_ControlData (Some a_TRANS_DISP) (Some f_RGBA) (Some t_DIRECT) None None
       (Some z_IN_FRONT) (Some o_ZLIB) (Some C_STAY) None None"

text \<open>
  \<open>dataclasses.asdict\<close>: the fields in declaration order, each value already
  formatted as \<open>f"{value}"\<close> formats it (\<open>None\<close> stays \<open>None\<close>).
\<close>

definition asdict :: "ControlData \<Rightarrow> (string \<times> string option) list" where
  "asdict cd =
     [(''a'', cd_a cd), (''f'', map_option show_int (cd_f cd)), (''t'', cd_t cd),
      (''s'', map_option show_int (cd_s cd)), (''v'', map_option show_int (cd_v cd)),
      (''z'', map_option show_int (cd_z cd)), (''o'', cd_o cd),
      (''C'', map_option show_int (cd_C cd)), (''c'', map_option show_int (cd_c cd)),
      (''r'', map_option show_int (cd_r cd))]"

text \<open>\<open>sep.join(items)\<close>.\<close>

fun join :: "string \<Rightarrow> string list \<Rightarrow> string" where
  "join sep [] = []"
| "join sep [x] = x"
| "join sep (x # y # ys) = x @ sep @ join sep (y # ys)"

section \<open>Transmissions (\<open>kitty.py\<close>, class \<open>Transmission\<close>)\<close>

text \<open>
  A transmission owns its control data, its payload and the private flag
  \<open>_compressed\<close>. \<open>zlib.compress\<close> and \<open>zlib.decompress\<close> belong to the Python
  standard library; the model takes them as the parameters \<open>zc\<close> and \<open>zd\<close>, the
  latter returning \<open>None\<close> where \<open>zlib.decompress\<close> raises \<open>zlib.error\<close>.
\<close>

record Transmission =
  control :: ControlData
  payload :: "byte list"
  compressed :: bool

datatype error = ValueError | ZlibError | ZeroDivisionError | TypeError | NonAsciiReply

definition compress :: "(byte list \<Rightarrow> byte list) \<Rightarrow> Transmission \<Rightarrow> Transmission" where
  "compress zc tr =
     (if cd_t (control tr) = Some t_DIRECT \<and> \<not> compressed tr
      then tr\<lparr>payload := zc (payload tr),
              control := (control tr)\<lparr>cd_o := Some o_ZLIB\<rparr>,
              compressed := True\<rparr>
      else tr)"

text \<open>
  \<open>decompress\<close> clears \<open>control.o\<close> before it calls \<open>zlib.decompress\<close>; when that
  raises, the exception leaves the object with \<open>o\<close> cleared and everything else as
  it was. The error result carries that state.
\<close>

definition decompress ::
  "(byte list \<Rightarrow> byte list option) \<Rightarrow> Transmission \<Rightarrow> (error \<times> Transmission) + Transmission" where
  "decompress zd tr =
     (if cd_t (control tr) = Some t_DIRECT \<and> compressed tr
      then (let tr1 = tr\<lparr>control := (control tr)\<lparr>cd_o := None\<rparr>\<rparr>
            in case zd (payload tr1) of
                 None \<Rightarrow> Inl (ZlibError, tr1)
               | Some p \<Rightarrow> Inr (tr1\<lparr>payload := p, compressed := False\<rparr>))
      else Inr tr)"

definition new_Transmission ::
  "(byte list \<Rightarrow> byte list) \<Rightarrow> ControlData \<Rightarrow> byte list \<Rightarrow> Transmission" where
  "new_Transmission zc cd p =
     (let tr = \<lparr>control = cd, payload = p, compressed = False\<rparr>
      in if cd_o (control tr) = Some o_ZLIB then compress zc tr else tr)"

definition encode :: "Transmission \<Rightarrow> string" where
  "encode tr = standard_b64encode (payload tr)"

definition get_payload :: "Transmission \<Rightarrow> string" where
  "get_payload tr = encode tr"

definition get_control_data :: "Transmission \<Rightarrow> string" where
  "get_control_data tr =
     join '','' (map (\<lambda>(key, val). key @ ''='' @ the val)
                  (filter (\<lambda>(key, val). val \<noteq> None) (asdict (control tr))))"

text \<open>
  \<open>get_chunks\<close> is a generator; the model returns the list of the strings it yields.
  \<open>bool_d\<close> is the format \<open>{bool(next_chunk):d}\<close>. \<open>chunks_loop\<close> is the
  \<open>while\<close> loop together with the final \<open>if chunk\<close>, on the loop variables
  \<open>chunk\<close>, \<open>next_chunk\<close> and the unread rest of the stream.
\<close>

definition bool_d :: "bool \<Rightarrow> string" where
  "bool_d b = (if b then ''1'' else ''0'')"

function chunks_loop :: "int \<Rightarrow> string \<Rightarrow> string \<Rightarrow> string \<Rightarrow> string list" where
  "chunks_loop sz chunk next_chunk stream =
     (if next_chunk \<noteq> []
      then (START @ ''m=1;'' @ chunk @ END')
           # (case read sz stream of (nn, stream') \<Rightarrow> chunks_loop sz next_chunk nn stream')
      else (if chunk \<noteq> [] then [START @ ''m=0;'' @ chunk @ END'] else []))"
  by pat_completeness auto
termination
  by (relation "measure (\<lambda>(sz, chunk, next_chunk, stream). length next_chunk + length stream)")
     (auto simp: read_def min_def split: if_splits)

declare chunks_loop.simps [simp del]

definition get_chunks :: "Transmission \<Rightarrow> int \<Rightarrow> string list" where
  "get_chunks tr sz =
     (case read sz (get_payload tr) of (chunk, s1) \<Rightarrow>
      case read sz s1 of (next_chunk, s2) \<Rightarrow>
        (START @ get_control_data tr @ '',m='' @ bool_d (next_chunk \<noteq> []) @ '';'' @ chunk @ END')
        # (case read sz s2 of (nn, s3) \<Rightarrow> chunks_loop sz next_chunk nn s3))"

definition get_chunked :: "Transmission \<Rightarrow> string" where
  "get_chunked tr = concat (get_chunks tr 4096)"

section \<open>Rendering (\<open>kitty.py\<close>, class \<open>KittyImage\<close>)\<close>

text \<open>
  What \<open>_render_image\<close> reads from the image object: \<open>rendered_size\<close> (columns and
  rows), \<open>_original_size\<close> (pixels), the render method, and the cell size that
  \<open>get_cell_size()\<close> reports (\<open>None\<close> when unknown). \<open>_get_render_data\<close> belongs
  to the base class in \<open>term_image.image.common\<close> and \<open>tobytes\<close> to PIL, both
  outside \<open>kitty.py\<close>; the model takes their composition as the parameter
  \<open>render_data\<close>, from the requested pixel size to the pixel mode and the raw bytes.
\<close>

datatype render_method = LINES | WHOLE

datatype mode = RGB | RGBA

record image =
  rendered_size :: "int \<times> int"
  original_size :: "int \<times> int"
  render_method_of :: render_method

definition f_of_mode :: "mode \<Rightarrow> int" where
  "f_of_mode m = (case m of RGB \<Rightarrow> f_RGB | RGBA \<Rightarrow> f_RGBA)"

definition get_render_size :: "image \<Rightarrow> (int \<times> int) option \<Rightarrow> int \<times> int" where
  "get_render_size img cell_size =
     (case rendered_size img of (rw, rh) \<Rightarrow>
      case (case cell_size of None \<Rightarrow> (1, 2) | Some cs \<Rightarrow> cs) of (cw, ch) \<Rightarrow>
        (rw * cw, rh * ch))"

text \<open>
  The pixel size \<open>_render_image\<close> settles on: the render size when it has fewer
  pixels than the original, the original size otherwise, its height then raised to
  the next multiple of the row count.
\<close>

definition transmitted_size :: "image \<Rightarrow> (int \<times> int) option \<Rightarrow> int \<times> int" where
  "transmitted_size img cell_size =
     (let render_size = get_render_size img cell_size;
          r_height = snd (rendered_size img);
          (width, height) =
            (if fst render_size * snd render_size < fst (original_size img) * snd (original_size img)
             then render_size else original_size img);
          extra = height mod (if r_height = 0 then 1 else r_height)
      in (width, if extra \<noteq> 0 then height - extra + r_height else height))"

text \<open>\<open>" " * n\<close>: the empty string for \<open>n \<le> 0\<close>.\<close>

definition spaces :: "int \<Rightarrow> string" where
  "spaces n = replicate (nat n) CHR '' ''"

definition delete_seq :: string where
  "delete_seq = START @ ''a=d,d=c;'' @ END'"

definition clear_seq :: "int \<Rightarrow> string" where
  "clear_seq c = delete_seq @ [ESC, CHR ''7''] @ [ESC, CHR ''[''] @ show_int c @ ''C''
                 @ delete_seq @ [ESC, CHR ''8'']"

text \<open>
  The body of the \<open>for _ in range(r_height - 1)\<close> loop of \<open>_render_image_lines\<close>,
  run \<open>k\<close> times on the unread rest of \<open>raw_image\<close>. The control data object is
  shared with every transmission built from it, so the loop carries on with the
  control data of the transmission just built.
\<close>

fun lines_loop ::
  "(byte list \<Rightarrow> byte list) \<Rightarrow> ControlData \<Rightarrow> int \<Rightarrow> string \<Rightarrow> int \<Rightarrow> nat \<Rightarrow> byte list \<Rightarrow> string" where
  "lines_loop zc cd bytes_per_line fill c 0 raw = []"
| "lines_loop zc cd bytes_per_line fill c (Suc k) raw =
     (case read bytes_per_line raw of (band, rest) \<Rightarrow>
        let trans = new_Transmission zc cd band;
            cd' = control trans
        in fill @ [CHR 0x0A]
           @ (if cd_z cd' = None then clear_seq c else [])
           @ get_chunked trans
           @ lines_loop zc cd' bytes_per_line fill c k rest)"

definition render_image_lines ::
  "(byte list \<Rightarrow> byte list) \<Rightarrow> byte list \<Rightarrow> ControlData \<Rightarrow> int \<Rightarrow> int \<Rightarrow> error + string" where
  "render_image_lines zc raw_image control_data height r_height =
     (if r_height = 0 then Inl ZeroDivisionError
      else let cell_height = height div r_height in
        case (cd_s control_data, cd_f control_data, cd_c control_data) of
          (Some s, Some f, Some c) \<Rightarrow>
            (let bytes_per_line = s * cell_height * (f div 8);
                 cd1 = control_data\<lparr>cd_v := Some cell_height, cd_r := Some 1\<rparr>;
                 fill = spaces c
             in case read bytes_per_line raw_image of (band, rest) \<Rightarrow>
                  let trans = new_Transmission zc cd1 band;
                      cd2 = control trans
                  in Inr ((if cd_z cd2 = None then clear_seq c else [])
                          @ get_chunked trans
                          @ lines_loop zc cd2 bytes_per_line fill c (nat (r_height - 1)) rest
                          @ fill))
        | _ \<Rightarrow> Inl TypeError)"

definition render_image_whole ::
  "(byte list \<Rightarrow> byte list) \<Rightarrow> byte list \<Rightarrow> ControlData \<Rightarrow> int \<Rightarrow> int \<Rightarrow> error + string" where
  "render_image_whole zc raw_image control_data height r_height =
     (let cd1 = control_data\<lparr>cd_v := Some height, cd_r := Some r_height\<rparr> in
      case cd_c cd1 of
        None \<Rightarrow> Inl TypeError
      | Some c \<Rightarrow>
          let fill = spaces c;
              trans = new_Transmission zc cd1 raw_image
          in Inr ((if cd_z cd1 = None then clear_seq c else [])
                  @ get_chunked trans
                  @ concat (replicate (nat (r_height - 1)) (fill @ [CHR 0x0A]))
                  @ fill))"

definition render_image ::
  "(byte list \<Rightarrow> byte list) \<Rightarrow> (int \<times> int \<Rightarrow> mode \<times> byte list) \<Rightarrow> image \<Rightarrow>
   (int \<times> int) option \<Rightarrow> int option \<Rightarrow> error + string" where
  "render_image zc render_data img cell_size z_index =
     (case transmitted_size img cell_size of (width, height) \<Rightarrow>
      case rendered_size img of (r_width, r_height) \<Rightarrow>
      case render_data (width, height) of (m, raw_image) \<Rightarrow>
        let control_data =
              new_ControlData (Some a_TRANS_DISP) (Some (f_of_mode m)) (Some t_DIRECT)
                (Some width) None z_index (Some o_ZLIB) (Some C_STAY) (Some r_width) None
        in (case render_method_of img of
              LINES \<Rightarrow> render_image_lines zc raw_image control_data height r_height
            | WHOLE \<Rightarrow> render_image_whole zc raw_image control_data height r_height))"

section \<open>Replies of the terminal: regular expressions, integers, tuples\<close>

text \<open>
  The two patterns of the source use literals, character classes, \<open>+\<close> on a class,
  \<open>?\<close> and groups. \<open>rx_match\<close> lists, for a pattern and a text, every way the
  pattern matches a prefix of the text, in the order in which Python's backtracking
  matcher tries them (greedy first): each entry holds the texts of the groups and
  the unmatched rest. \<open>re.match\<close> takes the first entry, \<open>re.fullmatch\<close> the first
  entry that leaves no rest.
\<close>

datatype rx = Lit char | Cls "char \<Rightarrow> bool" | PlusCls "char \<Rightarrow> bool" | Opt rx | Seq rx rx | Grp rx

fun rx_match :: "rx \<Rightarrow> string \<Rightarrow> (string list \<times> string) list" where
  "rx_match (Lit c) s = (case s of [] \<Rightarrow> [] | x # xs \<Rightarrow> if x = c then [([], xs)] else [])"
| "rx_match (Cls P) s = (case s of [] \<Rightarrow> [] | x # xs \<Rightarrow> if P x then [([], xs)] else [])"
| "rx_match (PlusCls P) s =
     map (\<lambda>k. ([], drop k s)) (rev [1 ..< Suc (length (takeWhile P s))])"
| "rx_match (Opt r) s = rx_match r s @ [([], s)]"
| "rx_match (Seq r1 r2) s =
     concat (map (\<lambda>(g1, s1). map (\<lambda>(g2, s2). (g1 @ g2, s2)) (rx_match r2 s1)) (rx_match r1 s))"
| "rx_match (Grp r) s =
     map (\<lambda>(g, s'). (take (length s - length s') s # g, s')) (rx_match r s)"

definition re_match :: "rx \<Rightarrow> string \<Rightarrow> string list option" where
  "re_match r s = (case rx_match r s of [] \<Rightarrow> None | (g, _) # _ \<Rightarrow> Some g)"

definition re_fullmatch :: "rx \<Rightarrow> string \<Rightarrow> string list option" where
  "re_fullmatch r s =
     (case filter (\<lambda>(g, rest). rest = []) (rx_match r s) of [] \<Rightarrow> None | (g, _) # _ \<Rightarrow> Some g)"

fun seqs :: "rx \<Rightarrow> rx list \<Rightarrow> rx" where
  "seqs r [] = r"
| "seqs r (x # xs) = Seq r (seqs x xs)"

text \<open>\<open>\w\<close> on ASCII text: letters, digits and the underscore.\<close>

definition ord :: "char \<Rightarrow> nat" where
  "ord ch = of_char ch"

definition is_digit :: "char \<Rightarrow> bool" where
  "is_digit ch = (48 \<le> ord ch \<and> ord ch \<le> 57)"

definition is_upper :: "char \<Rightarrow> bool" where
  "is_upper ch = (65 \<le> ord ch \<and> ord ch \<le> 90)"

definition is_word :: "char \<Rightarrow> bool" where
  "is_word ch = ((97 \<le> ord ch \<and> ord ch \<le> 122) \<or> is_upper ch \<or> is_digit ch \<or> ch = CHR ''_'')"

text \<open>\<open>kitty.py\<close>: \<open>r"\033P>\|(\w+)[( ]?([^)\033]+)\)?\033\\"\<close>.\<close>

definition kitty_rx :: rx where
  "kitty_rx = seqs (Lit ESC) [Lit CHR ''P'', Lit CHR ''>'', Lit CHR ''|'',
     Grp (PlusCls is_word), Opt (Cls (\<lambda>ch. ch = CHR ''('' \<or> ch = CHR '' '')),
     Grp (PlusCls (\<lambda>ch. ch \<noteq> CHR '')'' \<and> ch \<noteq> ESC)), Opt (Lit CHR '')''),
     Lit ESC, Lit BSL]"

text \<open>\<open>iterm2.py\<close>: \<open>r"\033P>\|(\w+)[( ]([^\033]+)\)?\033\\"\<close>.\<close>

definition iterm2_rx :: rx where
  "iterm2_rx = seqs (Lit ESC) [Lit CHR ''P'', Lit CHR ''>'', Lit CHR ''|'',
     Grp (PlusCls is_word), Cls (\<lambda>ch. ch = CHR ''('' \<or> ch = CHR '' ''),
     Grp (PlusCls (\<lambda>ch. ch \<noteq> ESC)), Opt (Lit CHR '')''),
     Lit ESC, Lit BSL]"

text \<open>
  \<open>bytes.decode()\<close>, \<open>str.lower\<close> and \<open>str.casefold\<close>. The model covers ASCII
  replies: a reply with a byte above \<open>0x7F\<close> is answered by the error
  \<open>NonAsciiReply\<close>, which stands for "outside this model" (Python would decode
  UTF-8 and go on with Unicode-aware functions).
\<close>

definition is_ascii :: "string \<Rightarrow> bool" where
  "is_ascii s = list_all (\<lambda>ch. ord ch < 128) s"

definition decode :: "string \<Rightarrow> error + string" where
  "decode s = (if is_ascii s then Inr s else Inl NonAsciiReply)"

definition lower_char :: "char \<Rightarrow> char" where
  "lower_char ch = (if is_upper ch then char_of (ord ch + 32) else ch)"

definition lower :: "string \<Rightarrow> string" where
  "lower s = map lower_char s"

definition casefold :: "string \<Rightarrow> string" where
  "casefold s = lower s"

text \<open>
  \<open>s.rpartition(sep)[0]\<close> for a one-character separator: the text before the last
  occurrence of \<open>sep\<close>, the empty text when there is none.
\<close>

fun rpartition0 :: "char \<Rightarrow> string \<Rightarrow> string" where
  "rpartition0 sep [] = []"
| "rpartition0 sep (x # xs) =
     (if sep \<in> set xs then x # rpartition0 sep xs else [])"

text \<open>\<open>s.split(".")\<close>: the fields between the dots, at least one field.\<close>

fun split_dot :: "string \<Rightarrow> string list" where
  "split_dot [] = [[]]"
| "split_dot (x # xs) =
     (if x = CHR ''.'' then [] # split_dot xs
      else (case split_dot xs of [] \<Rightarrow> [[x]] | p # ps \<Rightarrow> (x # p) # ps))"

text \<open>
  \<open>int(s)\<close> on an ASCII string: white space around the number is dropped, one sign
  may lead, and the digits may be grouped by single underscores; anything else is a
  \<open>ValueError\<close> (\<open>None\<close> here).
\<close>

definition is_space :: "char \<Rightarrow> bool" where
  "is_space ch = (ord ch = 32 \<or> (9 \<le> ord ch \<and> ord ch \<le> 13))"

definition strip :: "string \<Rightarrow> string" where
  "strip s = rev (dropWhile is_space (rev (dropWhile is_space s)))"

definition digit_val :: "char \<Rightarrow> int" where
  "digit_val ch = int (ord ch) - 48"

fun digits_val :: "int \<Rightarrow> string \<Rightarrow> int option" where
  "digits_val acc [] = Some acc"
| "digits_val acc [x] = (if is_digit x then Some (acc * 10 + digit_val x) else None)"
| "digits_val acc (x # y # ys) =
     (if is_digit x then digits_val (acc * 10 + digit_val x) (y # ys)
      else if x = CHR ''_'' \<and> is_digit y then digits_val acc (y # ys)
      else None)"

definition unsigned_int :: "string \<Rightarrow> int option" where
  "unsigned_int s = (case s of [] \<Rightarrow> None | x # xs \<Rightarrow> if is_digit x then digits_val 0 s else None)"

definition py_int :: "string \<Rightarrow> int option" where
  "py_int s =
     (case strip s of
        [] \<Rightarrow> None
      | x # xs \<Rightarrow>
          if x = CHR ''-'' then map_option uminus (unsigned_int xs)
          else if x = CHR ''+'' then unsigned_int xs
          else unsigned_int (x # xs))"

text \<open>\<open>tuple(map(int, version.split(".")))\<close>: a tuple of integers or a \<open>ValueError\<close>.\<close>

definition version_tuple :: "string \<Rightarrow> error + int list" where
  "version_tuple version =
     (let parts = map py_int (split_dot version)
      in if list_all (\<lambda>p. p \<noteq> None) parts then Inr (map the parts) else Inl ValueError)"

text \<open>Python's order on tuples of integers: lexicographic, a proper prefix is smaller.\<close>

fun tuple_lt :: "int list \<Rightarrow> int list \<Rightarrow> bool" where
  "tuple_lt [] [] = False"
| "tuple_lt [] (y # ys) = True"
| "tuple_lt (x # xs) [] = False"
| "tuple_lt (x # xs) (y # ys) = (if x = y then tuple_lt xs ys else x < y)"

definition tuple_ge :: "int list \<Rightarrow> int list \<Rightarrow> bool" where
  "tuple_ge xs ys = (\<not> tuple_lt xs ys)"

definition tuple_gt :: "int list \<Rightarrow> int list \<Rightarrow> bool" where
  "tuple_gt xs ys = tuple_lt ys xs"

definition tuple_le :: "int list \<Rightarrow> int list \<Rightarrow> bool" where
  "tuple_le xs ys = (\<not> tuple_lt ys xs)"

section \<open>Capability detection (\<open>is_supported\<close> of both classes)\<close>

text \<open>
  The terminal is the record \<open>tty\<close>: \<open>written\<close> lists the queries written so far,
  \<open>replies\<close> holds what the coming queries will get back, one entry per query.
\<close>

record tty =
  written :: "string list"
  replies :: "string list"

text \<open>
  Modelled from the spec: \<open>query_terminal\<close> of \<open>term_image.utils\<close>, which
  \<open>kitty.py\<close> and \<open>iterm2.py\<close> import. The spec's
  \<open>send_and_read(query_bytes, stop_predicate, timeout)\<close> writes \<open>query_bytes\<close> to
  the terminal, then reads until the predicate holds or the time is up, returning
  whatever was accumulated (possibly empty on timeout). Here the call appends the
  query to \<open>written\<close> and returns the next entry of \<open>replies\<close>; with no entry
  left it times out and returns the empty bytes.
\<close>

definition query_terminal :: "string \<Rightarrow> tty \<Rightarrow> string \<times> tty" where
  "query_terminal request term =
     (case replies term of
        [] \<Rightarrow> ([], term\<lparr>written := written term @ [request]\<rparr>)
      | r # rs \<Rightarrow> (r, term\<lparr>written := written term @ [request], replies := rs\<rparr>))"

text \<open>
  The class attribute \<open>_supported\<close> holds \<open>None\<close>, a \<open>bool\<close> or, in \<open>KittyImage\<close>,
  the empty bytes that \<open>response and (...)\<close> evaluates to for an empty response.
\<close>

datatype support = PyNone | PyEmptyBytes | PyBool bool

definition truthy :: "support \<Rightarrow> bool" where
  "truthy v = (v = PyBool True)"

record KittyImage_cls =
  kitty_supported :: support
  KITTY_VERSION :: "int list"
  KONSOLE_VERSION :: "int list"

definition KittyImage_initial :: KittyImage_cls where
  "KittyImage_initial = \<lparr>kitty_supported = PyNone, KITTY_VERSION = [], KONSOLE_VERSION = []\<rparr>"

definition kitty_probe :: string where
  "kitty_probe = START @ ''a=q,t=d,i=31,f=24,s=1,v=1,C=1,c=1,r=1;AAAA'' @ END' @ [ESC] @ ''[c''"

definition kitty_probe_ok :: string where
  "kitty_probe_ok = START @ ''i=31;OK'' @ END'"

definition xtversion_query :: string where
  "xtversion_query = [ESC] @ ''[>q''"

text \<open>
  The statements of \<open>KittyImage.is_supported\<close> after the second query: the
  identification reply is decoded and matched, a recognised name stores its version,
  and the final assignment compares the stored versions. An exception leaves the
  class as the statements before it left it.
\<close>

definition kitty_identify :: "string \<Rightarrow> KittyImage_cls \<Rightarrow> (error + support) \<times> KittyImage_cls" where
  "kitty_identify response cls =
     (case decode response of
        Inl e \<Rightarrow> (Inl e, cls)
      | Inr text \<Rightarrow>
          let parsed =
                (case re_match kitty_rx text of
                   Some [name, version] \<Rightarrow>
                     if casefold name = ''kitty''
                     then (case version_tuple version of
                             Inl e \<Rightarrow> Inl e
                           | Inr vs \<Rightarrow> Inr (cls\<lparr>KITTY_VERSION := vs\<rparr>))
                     else if casefold name = ''konsole''
                     then (case version_tuple version of
                             Inl e \<Rightarrow> Inl e
                           | Inr vs \<Rightarrow> Inr (cls\<lparr>KONSOLE_VERSION := vs\<rparr>))
                     else Inr cls
                 | _ \<Rightarrow> Inr cls)
          in case parsed of
               Inl e \<Rightarrow> (Inl e, cls)
             | Inr cls1 \<Rightarrow>
                 let cls2 = cls1\<lparr>kitty_supported :=
                       PyBool (tuple_ge (KITTY_VERSION cls1) [0, 20, 0]
                               \<or> tuple_ge (KONSOLE_VERSION cls1) [22, 4, 0])\<rparr>
                 in (Inr (kitty_supported cls2), cls2))"

definition kitty_is_supported ::
  "KittyImage_cls \<Rightarrow> tty \<Rightarrow> (error + support) \<times> KittyImage_cls \<times> tty" where
  "kitty_is_supported cls term =
     (if kitty_supported cls = PyNone
      then (case query_terminal kitty_probe term of (response, term1) \<Rightarrow>
              let cls1 = cls\<lparr>kitty_supported :=
                    (if response = [] then PyEmptyBytes
                     else PyBool (rpartition0 ESC response = kitty_probe_ok))\<rparr>
              in if truthy (kitty_supported cls1)
                 then (case query_terminal xtversion_query term1 of (response2, term2) \<Rightarrow>
                         case kitty_identify response2 cls1 of (res, cls2) \<Rightarrow> (res, cls2, term2))
                 else (Inr (kitty_supported cls1), cls1, term1))
      else (Inr (kitty_supported cls), cls, term))"

text \<open>
  \<open>ITerm2Image\<close>: the class attributes \<open>_supported\<close>, \<open>_TERM\<close> (here \<open>term_name\<close>)
  and \<open>_TERM_VERSION\<close> (here \<open>term_version\<close>).
\<close>

record ITerm2Image_cls =
  iterm2_supported :: support
  term_name :: string
  term_version :: string

definition ITerm2Image_initial :: ITerm2Image_cls where
  "ITerm2Image_initial = \<lparr>iterm2_supported = PyNone, term_name = [], term_version = []\<rparr>"

definition iterm2_query :: string where
  "iterm2_query = [ESC] @ ''[>q'' @ [ESC] @ ''[c''"

text \<open>
  \<open>read_tty()\<close> after the query only reads what is left of the answer to \<open>CSI c\<close>;
  it writes nothing and its result is dropped, so it does not show in the model.
\<close>

definition iterm2_is_supported ::
  "ITerm2Image_cls \<Rightarrow> tty \<Rightarrow> (error + support) \<times> ITerm2Image_cls \<times> tty" where
  "iterm2_is_supported cls term =
     (if iterm2_supported cls = PyNone
      then (case query_terminal iterm2_query term of (raw, term1) \<Rightarrow>
              case decode raw of
                Inl e \<Rightarrow> (Inl e, cls, term1)
              | Inr response \<Rightarrow>
                  if response \<noteq> []
                  then (case re_fullmatch iterm2_rx (rpartition0 ESC response) of
                          Some [g1, g2] \<Rightarrow>
                            if lower g1 \<in> {''iterm2'', ''konsole'', ''wezterm''}
                            then (let name = lower g1; version = lower g2;
                                      cls1 =
                                        (if name = ''konsole''
                                         then (case version_tuple version of
                                                 Inl e \<Rightarrow> cls\<lparr>iterm2_supported := PyBool False\<rparr>
                                               | Inr vs \<Rightarrow>
                                                   if tuple_lt vs [22, 4, 0]
                                                   then cls\<lparr>iterm2_supported := PyBool False\<rparr>
                                                   else cls\<lparr>iterm2_supported := PyBool True,
                                                            term_name := name, term_version := version\<rparr>)
                                         else cls\<lparr>iterm2_supported := PyBool True,
                                                  term_name := name, term_version := version\<rparr>)
                                  in (Inr (iterm2_supported cls1), cls1, term1))
                            else (Inr (iterm2_supported cls), cls, term1)
                        | _ \<Rightarrow> (Inr (iterm2_supported cls), cls, term1))
                  else (let cls1 = cls\<lparr>iterm2_supported := PyBool False\<rparr>
                        in (Inr (iterm2_supported cls1), cls1, term1)))
      else (Inr (iterm2_supported cls), cls, term))"

section \<open>Animation (\<open>KittyImage._display_animated\<close>)\<close>

text \<open>
  The keyword arguments are a dictionary from names to values; the value \<open>None\<close> of
  Python is \<open>None\<close> of the option type, so \<open>kwargs k = Some None\<close> says that \<open>k\<close> is
  passed as \<open>None\<close> and \<open>kwargs k = None\<close> that \<open>k\<close> is not passed. The result is
  the dictionary handed to \<open>super()._display_animated\<close>.
\<close>

definition display_animated_kwargs ::
  "KittyImage_cls \<Rightarrow> (string \<rightharpoonup> 'v option) \<Rightarrow> (string \<rightharpoonup> 'v option)" where
  "display_animated_kwargs cls kwargs =
     (if tuple_gt (KITTY_VERSION cls) [0, 25, 0]
      then kwargs(''z_index'' \<mapsto> None)
      else kwargs(''z_index'' := None))"

section \<open>Notions used in the statements\<close>

text \<open>
  \<open>slices n xs\<close> cuts \<open>xs\<close> into consecutive pieces of \<open>n\<close> items, the last one
  holding what is left (no piece for the empty list).
\<close>

function slices :: "nat \<Rightarrow> 'a list \<Rightarrow> 'a list list" where
  "slices n xs = (if n = 0 \<or> xs = [] then [] else take n xs # slices n (drop n xs))"
  by pat_completeness auto
termination
  by (relation "measure (\<lambda>(n, xs). length xs)") auto

declare slices.simps [simp del]

text \<open>A transmission with six payload bytes, the flag \<open>_compressed\<close> unset.\<close>

definition example_transmission :: Transmission where
  "example_transmission =
     \<lparr>control = default_ControlData, payload = [1, 2, 3, 4, 5, 6], compressed = False\<rparr>"

definition empty_transmission :: Transmission where
  "empty_transmission = \<lparr>control = default_ControlData, payload = [], compressed = False\<rparr>"

text \<open>
  The keys of the control data in the order of the dataclass fields, the text of a
  field by its key, and the keys whose field is not \<open>None\<close>.
\<close>

definition control_keys :: "string list" where
  "control_keys = [''a'', ''f'', ''t'', ''s'', ''v'', ''z'', ''o'', ''C'', ''c'', ''r'']"

definition control_field :: "ControlData \<Rightarrow> string \<Rightarrow> string option" where
  "control_field cd k =
     (if k = ''a'' then cd_a cd
      else if k = ''f'' then map_option show_int (cd_f cd)
      else if k = ''t'' then cd_t cd
      else if k = ''s'' then map_option show_int (cd_s cd)
      else if k = ''v'' then map_option show_int (cd_v cd)
      else if k = ''z'' then map_option show_int (cd_z cd)
      else if k = ''o'' then cd_o cd
      else if k = ''C'' then map_option show_int (cd_C cd)
      else if k = ''c'' then map_option show_int (cd_c cd)
      else if k = ''r'' then map_option show_int (cd_r cd)
      else None)"

definition emitted_keys :: "ControlData \<Rightarrow> string list" where
  "emitted_keys cd = filter (\<lambda>k. control_field cd k \<noteq> None) control_keys"

definition png_example :: ControlData where
  "png_example = new_ControlData (Some a_TRANS_DISP) (Some f_PNG) (Some t_DIRECT) (Some 5) (Some 7)
      (Some (- 1)) None (Some C_STAY) (Some 30) None"

text \<open>
  A stand-in codec for concrete instances of the statements about compression: it
  puts one marker byte in front of the data, and takes it off again.
\<close>

definition marker_compress :: "byte list \<Rightarrow> byte list" where
  "marker_compress p = 0x78 # p"

definition marker_decompress :: "byte list \<Rightarrow> byte list option" where
  "marker_decompress p = (case p of [] \<Rightarrow> None | x # xs \<Rightarrow> if x = 0x78 then Some xs else None)"

definition direct_uncompressed :: Transmission where
  "direct_uncompressed =
     \<lparr>control = default_ControlData\<lparr>cd_o := None\<rparr>, payload = [1, 2, 3], compressed = False\<rparr>"

text \<open>
  \<open>n\<close> calls of \<open>is_supported\<close> in a row, each on the class and the terminal the
  call before left behind; the results are listed in order.
\<close>

fun kitty_is_supported_times ::
  "nat \<Rightarrow> KittyImage_cls \<Rightarrow> tty \<Rightarrow> (error + support) list \<times> KittyImage_cls \<times> tty" where
  "kitty_is_supported_times 0 cls term = ([], cls, term)"
| "kitty_is_supported_times (Suc n) cls term =
     (case kitty_is_supported cls term of (r, cls1, term1) \<Rightarrow>
      case kitty_is_supported_times n cls1 term1 of (rs, cls2, term2) \<Rightarrow> (r # rs, cls2, term2))"

fun iterm2_is_supported_times ::
  "nat \<Rightarrow> ITerm2Image_cls \<Rightarrow> tty \<Rightarrow> (error + support) list \<times> ITerm2Image_cls \<times> tty" where
  "iterm2_is_supported_times 0 cls term = ([], cls, term)"
| "iterm2_is_supported_times (Suc n) cls term =
     (case iterm2_is_supported cls term of (r, cls1, term1) \<Rightarrow>
      case iterm2_is_supported_times n cls1 term1 of (rs, cls2, term2) \<Rightarrow> (r # rs, cls2, term2))"

text \<open>
  Replies as terminals send them: the identification \<open>ESC P > | text ESC \\<close>, an
  answer to the Kitty probe followed by the device attributes, and the first bytes
  of the device attributes at which the iTerm2 query stops reading.
\<close>

definition identification :: "string \<Rightarrow> string" where
  "identification text = [ESC] @ ''P>|'' @ text @ [ESC, BSL]"

definition kitty_probe_reply :: string where
  "kitty_probe_reply = kitty_probe_ok @ [ESC] @ ''[?62;c''"

definition da1_start :: string where
  "da1_start = [ESC] @ ''[?6''"


text \<open>
  \<open>times_out\<close>: the coming query gets no byte back. \<open>after_query\<close>: the terminal
  once a query has been written and its reply read.
\<close>

definition times_out :: "tty \<Rightarrow> bool" where
  "times_out tt = (case replies tt of [] \<Rightarrow> True | r # _ \<Rightarrow> r = [])"

definition after_query :: "string \<Rightarrow> tty \<Rightarrow> tty" where
  "after_query request tt = tt\<lparr>written := written tt @ [request], replies := tl (replies tt)\<rparr>"

text \<open>
  \<open>count_START\<close> counts the places of a text at which \<open>ESC _ G\<close> starts, that is
  the graphics escape sequences in it. \<open>bands n k xs\<close> are the first \<open>k\<close>
  consecutive pieces of \<open>n\<close> items of \<open>xs\<close>. \<open>band_text\<close> is what
  \<open>_render_image_lines\<close> writes for one band: the clearing sequence when \<open>z\<close> is
  \<open>None\<close>, then the chunked transmission of the band.
\<close>

fun count_START :: "string \<Rightarrow> nat" where
  "count_START [] = 0"
| "count_START (x # xs) = (if take 3 (x # xs) = START then 1 else 0) + count_START xs"

fun bands :: "nat \<Rightarrow> nat \<Rightarrow> 'a list \<Rightarrow> 'a list list" where
  "bands n 0 xs = []"
| "bands n (Suc k) xs = take n xs # bands n k (drop n xs)"

definition band_text :: "(byte list \<Rightarrow> byte list) \<Rightarrow> ControlData \<Rightarrow> int \<Rightarrow> byte list \<Rightarrow> string" where
  "band_text zc cd c band =
     (if cd_z cd = None then clear_seq c else []) @ get_chunked (new_Transmission zc cd band)"

text \<open>
  The pixel size \<open>_render_image\<close> chooses before it pads the height.
\<close>

definition chosen_size :: "image \<Rightarrow> (int \<times> int) option \<Rightarrow> int \<times> int" where
  "chosen_size img cell_size =
     (let render_size = get_render_size img cell_size
      in if fst render_size * snd render_size < fst (original_size img) * snd (original_size img)
         then render_size else original_size img)"

text \<open>
  An image for concrete instances: 2x3 pixels on two rows and two columns.
\<close>

definition small_image :: image where
  "small_image = \<lparr>rendered_size = (2, 2), original_size = (2, 3), render_method_of = LINES\<rparr>"

definition small_render_data :: "int \<times> int \<Rightarrow> mode \<times> byte list" where
  "small_render_data sz = (RGB, replicate 24 0)"

text \<open>
  Pixels that do not compress: the bytes of a linear congruential generator
  (\<open>x \<mapsto> (1103515245 x + 12345) mod 2^31\<close>, of each state the bits 16 to 23),
  starting from state \<open>x\<close>.
\<close>

fun noise :: "nat \<Rightarrow> nat \<Rightarrow> byte list" where
  "noise 0 x = []"
| "noise (Suc n) x =
     (let y = (x * 1103515245 + 12345) mod 2147483648
      in of_nat (y div 65536) # noise n y)"

text \<open>
  \<open>zlib.compress\<close> on data that deflate cannot shrink (up to 65535 bytes): the
  stream header \<open>78 9C\<close>, one stored block (the byte \<open>01\<close>, the length and its
  complement, two bytes each, low byte first, then the data as it is) and the
  Adler-32 checksum of the data, high byte first. On the bytes \<open>noise 3200 1\<close>
  used below this is what \<open>zlib.compress\<close> returns: 3211 bytes.
\<close>

fun adler32_loop :: "nat \<Rightarrow> nat \<Rightarrow> byte list \<Rightarrow> nat" where
  "adler32_loop a b [] = b * 65536 + a"
| "adler32_loop a b (x # xs) =
     (let a' = (a + unat x) mod 65521 in adler32_loop a' ((b + a') mod 65521) xs)"

definition adler32 :: "byte list \<Rightarrow> nat" where
  "adler32 data = adler32_loop 1 0 data"

definition le16 :: "nat \<Rightarrow> byte list" where
  "le16 n = [of_nat n, of_nat (n div 256)]"

definition be32 :: "nat \<Rightarrow> byte list" where
  "be32 n = [of_nat (n div 16777216), of_nat (n div 65536), of_nat (n div 256), of_nat n]"

definition zlib_stored :: "byte list \<Rightarrow> byte list" where
  "zlib_stored data =
     [0x78, 0x9C, 0x01] @ le16 (length data) @ le16 (65535 - length data) @ data
     @ be32 (adler32 data)"

text \<open>
  An image of 40x20 RGBA noise pixels, shown on four columns and one row of a
  terminal whose cells are 10x20 pixels.
\<close>

definition noise_image :: image where
  "noise_image = \<lparr>rendered_size = (4, 1), original_size = (40, 20), render_method_of = LINES\<rparr>"

definition noise_render_data :: "int \<times> int \<Rightarrow> mode \<times> byte list" where
  "noise_render_data sz = (RGBA, noise 3200 1)"

section \<open>Chunking: \<open>Transmission.get_chunks\<close>\<close>

subsection \<open>Slices\<close>

lemma slices_Nil [simp]: "slices n [] = []"
  by (simp add: slices.simps)

lemma slices_Cons: "0 < n \<Longrightarrow> xs \<noteq> [] \<Longrightarrow> slices n xs = take n xs # slices n (drop n xs)"
  by (subst slices.simps) simp

lemma slices_eq_Nil: "0 < n \<Longrightarrow> slices n xs = [] \<longleftrightarrow> xs = []"
  by (cases "xs = []") (simp_all add: slices_Cons)

lemma concat_slices: "0 < n \<Longrightarrow> concat (slices n xs) = xs"
proof (induction n xs rule: slices.induct)
  case (1 n xs)
  then show ?case by (cases "xs = []") (simp_all add: slices_Cons)
qed

lemma slices_nonempty: "0 < n \<Longrightarrow> c \<in> set (slices n xs) \<Longrightarrow> c \<noteq> []"
proof (induction n xs rule: slices.induct)
  case (1 n xs)
  then show ?case by (cases "xs = []") (auto simp add: slices_Cons)
qed

lemma slices_short: "0 < n \<Longrightarrow> xs \<noteq> [] \<Longrightarrow> length xs \<le> n \<Longrightarrow> slices n xs = [xs]"
  by (simp add: slices_Cons)

lemma slices_length_le: "0 < n \<Longrightarrow> c \<in> set (slices n xs) \<Longrightarrow> length c \<le> n"
proof (induction n xs rule: slices.induct)
  case (1 n xs)
  then show ?case by (cases "xs = []") (auto simp add: slices_Cons)
qed

lemma slices_dvd: "0 < n \<Longrightarrow> n dvd length xs \<Longrightarrow> c \<in> set (slices n xs) \<Longrightarrow> length c = n"
proof (induction n xs rule: slices.induct)
  case (1 n xs)
  show ?case
  proof (cases "xs = []")
    case True
    with 1 show ?thesis by simp
  next
    case False
    from 1(3) False 1(2) have le: "n \<le> length xs" by (auto dest: dvd_imp_le)
    from 1(3) le have d: "n dvd length (drop n xs)" by (simp add: dvd_diff_nat)
    from 1(4) False 1(2) have "c = take n xs \<or> c \<in> set (slices n (drop n xs))"
      by (simp add: slices_Cons)
    then show ?thesis
      using 1(1) 1(2) False d le by auto
  qed
qed

lemma slices_butlast_full: "0 < n \<Longrightarrow> c \<in> set (butlast (slices n xs)) \<Longrightarrow> length c = n"
proof (induction n xs rule: slices.induct)
  case (1 n xs)
  show ?case
  proof (cases "xs = []")
    case True
    with 1 show ?thesis by simp
  next
    case False
    show ?thesis
    proof (cases "drop n xs = []")
      case True
      with 1(3) False 1(2) show ?thesis by (simp add: slices_Cons)
    next
      case d: False
      then have ne: "slices n (drop n xs) \<noteq> []" using 1(2) by (simp add: slices_eq_Nil)
      from d have "n < length xs" by simp
      with 1 False ne show ?thesis by (auto simp add: slices_Cons)
    qed
  qed
qed

subsection \<open>The loop of \<open>get_chunks\<close>\<close>

lemma loop_slices:
  assumes "0 < n"
  shows "chunks_loop (int n) c (take n s) (drop n s) =
     map (\<lambda>x. START @ ''m=1;'' @ x @ END') (butlast (c # slices n s))
     @ (if last (c # slices n s) \<noteq> [] then [START @ ''m=0;'' @ last (c # slices n s) @ END'] else [])"
  using assms
proof (induction n s arbitrary: c rule: slices.induct)
  case (1 n xs)
  show ?case
  proof (cases "xs = []")
    case True
    then show ?thesis by (simp add: chunks_loop.simps)
  next
    case False
    have tk: "take n xs \<noteq> []" using False 1(2) by simp
    have sl: "slices n xs = take n xs # slices n (drop n xs)"
      using False 1(2) by (rule_tac slices_Cons)
    have ih: "chunks_loop (int n) (take n xs) (take n (drop n xs)) (drop n (drop n xs)) =
       map (\<lambda>x. START @ ''m=1;'' @ x @ END') (butlast (take n xs # slices n (drop n xs)))
     @ (if last (take n xs # slices n (drop n xs)) \<noteq> [] then [START @ ''m=0;'' @ last (take n xs # slices n (drop n xs)) @ END'] else [])"
      using 1(1)[of "take n xs"] False 1(2) by simp
    show ?thesis
      apply (subst chunks_loop.simps)
      apply (simp only: tk sl read_def)
      using ih by simp
  qed
qed

lemma get_chunks_empty: "encode tr = [] \<Longrightarrow>
  get_chunks tr sz = [START @ get_control_data tr @ '',m=0;'' @ END']"
  by (simp add: get_chunks_def get_payload_def read_def bool_d_def chunks_loop.simps)

lemma get_chunks_slices:
  assumes n: "0 < n" and ne: "encode tr \<noteq> []"
  shows "get_chunks tr (int n) =
    (START @ get_control_data tr @ '',m='' @ bool_d (tl (slices n (encode tr)) \<noteq> []) @ '';''
       @ hd (slices n (encode tr)) @ END')
    # map (\<lambda>x. START @ ''m=1;'' @ x @ END') (butlast (tl (slices n (encode tr))))
    @ (if tl (slices n (encode tr)) \<noteq> []
       then [START @ ''m=0;'' @ last (tl (slices n (encode tr))) @ END'] else [])"
proof -
  let ?e = "encode tr"
  have sl: "slices n ?e = take n ?e # slices n (drop n ?e)"
    using n ne by (rule slices_Cons)
  show ?thesis
  proof (cases "drop n ?e = []")
    case True
    then show ?thesis
      using n by (simp add: get_chunks_def get_payload_def read_def sl chunks_loop.simps)
  next
    case False
    have sl2: "slices n (drop n ?e) = take n (drop n ?e) # slices n (drop n (drop n ?e))"
      using n False by (rule slices_Cons)
    have tk: "take n (drop n ?e) \<noteq> []" using False n by simp
    have lastne: "last (slices n (drop n ?e)) \<noteq> []"
      using slices_nonempty[OF n, of "last (slices n (drop n ?e))" "drop n ?e"] sl2
      by (metis last_in_set list.distinct(1))
    have "get_chunks tr (int n) =
        (START @ get_control_data tr @ '',m='' @ bool_d True @ '';'' @ take n ?e @ END')
        # chunks_loop (int n) (take n (drop n ?e)) (take n (drop n (drop n ?e))) (drop n (drop n (drop n ?e)))"
      using tk by (simp add: get_chunks_def get_payload_def read_def add.assoc)
    also have "chunks_loop (int n) (take n (drop n ?e)) (take n (drop n (drop n ?e))) (drop n (drop n (drop n ?e)))
       = map (\<lambda>x. START @ ''m=1;'' @ x @ END') (butlast (slices n (drop n ?e)))
         @ [START @ ''m=0;'' @ last (slices n (drop n ?e)) @ END']"
      using loop_slices[OF n, of "take n (drop n ?e)" "drop n (drop n ?e)"]
      by (simp only: sl2[symmetric] lastne simp_thms if_True)
    finally show ?thesis
      using sl2 by (simp add: sl)
  qed
qed

lemma framed_nth:
  assumes "rest \<noteq> []"
  shows "i < Suc (length rest) \<Longrightarrow>
    ((first # map cont (butlast rest) @ [fin (last rest)]) ! i) =
     (if i = 0 then first else if i < length rest then cont (rest ! (i - 1)) else fin (rest ! (i - 1)))"
proof -
  assume i: "i < Suc (length rest)"
  have len: "length (butlast rest) = length rest - 1" by simp
  show ?thesis
  proof (cases "i = 0")
    case True then show ?thesis by simp
  next
    case False
    then obtain j where j: "i = Suc j" by (cases i) auto
    show ?thesis
    proof (cases "i < length rest")
      case True
      then have "j < length (butlast rest)" using j by simp
      then show ?thesis using j True by (simp add: nth_append nth_butlast)
    next
      case False
      then have "j = length (butlast rest)" using j i assms by simp
      then show ?thesis using j False assms by (simp add: nth_append last_conv_nth)
    qed
  qed
qed


lemma example_encode: "encode example_transmission = ''AQIDBAUG''"
  by (simp add: encode_def example_transmission_def b64c_def b64_alphabet_def)

lemma example_control_data: "get_control_data example_transmission = ''a=T,f=32,t=d,z=0,o=z,C=1''"
  by code_simp

lemma encode_empty_iff: "encode tr = [] \<longleftrightarrow> payload tr = []"
  by (cases "payload tr" rule: standard_b64encode.cases) (simp_all add: encode_def)

text \<open>
  Claim C1. For a positive chunk size \<open>sz\<close>, let \<open>cs\<close> be the slices of \<open>sz\<close>
  characters of the base64 text of the payload. The slices make up the text, none
  is empty and all but the last are full. \<open>get_chunks\<close> yields one escape
  sequence per slice (one sequence when there is no slice at all); sequence \<open>i\<close>
  carries slice \<open>i\<close>, the control data only for \<open>i = 0\<close>, and the flag \<open>m=1\<close>
  exactly when another sequence follows, \<open>m=0\<close> on the last one. A text that fits
  in one slice gives exactly one sequence with \<open>m=0\<close>. When the length of a
  non-empty text is a multiple of \<open>sz\<close>, the last sequence carries a full slice
  of \<open>sz\<close> characters and \<open>m=0\<close>.
\<close>

theorem get_chunks_continuation_flags:
  fixes tr :: Transmission and sz :: int
  assumes "0 < sz"
  shows "(let cs = slices (nat sz) (encode tr); out = get_chunks tr sz in
      concat cs = encode tr
    \<and> (\<forall>c\<in>set cs. c \<noteq> [] \<and> length c \<le> nat sz)
    \<and> (\<forall>c\<in>set (butlast cs). length c = nat sz)
    \<and> length out = max 1 (length cs)
    \<and> (\<forall>i<length cs. out ! i =
          START @ (if i = 0 then get_control_data tr @ '','' else []) @ ''m=''
          @ bool_d (Suc i < length cs) @ '';'' @ cs ! i @ END')
    \<and> (length (encode tr) \<le> nat sz \<longrightarrow>
          out = [START @ get_control_data tr @ '',m=0;'' @ encode tr @ END'])
    \<and> (encode tr \<noteq> [] \<and> nat sz dvd length (encode tr) \<longrightarrow>
          length (last cs) = nat sz
          \<and> last out = START @ (if length cs = 1 then get_control_data tr @ '','' else [])
                        @ ''m=0;'' @ last cs @ END'))"
proof -
  define n where "n = nat sz"
  have n: "0 < n" and sz: "sz = int n" using assms by (simp_all add: n_def)
  define e where "e = encode tr"
  define cs where "cs = slices n e"
  define out where "out = get_chunks tr sz"
  have c1: "concat cs = e" unfolding cs_def using n by (rule concat_slices)
  have c2: "\<forall>c\<in>set cs. c \<noteq> [] \<and> length c \<le> n"
    unfolding cs_def using slices_nonempty[OF n] slices_length_le[OF n] by blast
  have c3: "\<forall>c\<in>set (butlast cs). length c = n"
    unfolding cs_def using slices_butlast_full[OF n] by blast
  have rest: "length out = max 1 (length cs)
    \<and> (\<forall>i<length cs. out ! i =
          START @ (if i = 0 then get_control_data tr @ '','' else []) @ ''m=''
          @ bool_d (Suc i < length cs) @ '';'' @ cs ! i @ END')
    \<and> (length e \<le> n \<longrightarrow> out = [START @ get_control_data tr @ '',m=0;'' @ e @ END'])
    \<and> (e \<noteq> [] \<and> n dvd length e \<longrightarrow>
          length (last cs) = n
          \<and> last out = START @ (if length cs = 1 then get_control_data tr @ '','' else [])
                        @ ''m=0;'' @ last cs @ END')"
  proof (cases "e = []")
    case True
    then have "cs = []" by (simp add: cs_def)
    moreover have "out = [START @ get_control_data tr @ '',m=0;'' @ END']"
      unfolding out_def using True by (simp add: e_def get_chunks_empty)
    ultimately show ?thesis using True by simp
  next
    case False
    then obtain c rest where cs: "cs = c # rest"
      using n by (cases cs) (simp_all add: cs_def slices_eq_Nil)
    have out: "out = (START @ get_control_data tr @ '',m='' @ bool_d (rest \<noteq> []) @ '';'' @ c @ END')
        # map (\<lambda>x. START @ ''m=1;'' @ x @ END') (butlast rest)
        @ (if rest \<noteq> [] then [START @ ''m=0;'' @ last rest @ END'] else [])"
      using get_chunks_slices[OF n, of tr] False cs
      by (simp add: out_def sz e_def cs_def)
    have short: "length e \<le> n \<longrightarrow> rest = [] \<and> c = e"
      using slices_short[OF n False] cs by (auto simp: cs_def)
    have full: "n dvd length e \<longrightarrow> length (last cs) = n"
      using slices_dvd[OF n, of e "last cs"] cs by (simp add: cs_def)
    show ?thesis
    proof (cases "rest = []")
      case True
      then show ?thesis using out cs short full by (simp add: bool_d_def)
    next
      case rne: False
      have out': "out = (START @ get_control_data tr @ '',m=1;'' @ c @ END')
        # map (\<lambda>x. START @ ''m=1;'' @ x @ END') (butlast rest)
        @ [START @ ''m=0;'' @ last rest @ END']"
        using out rne by (simp add: bool_d_def)
      have nth: "\<forall>i<length cs. out ! i =
          START @ (if i = 0 then get_control_data tr @ '','' else []) @ ''m=''
          @ bool_d (Suc i < length cs) @ '';'' @ cs ! i @ END'"
      proof (intro allI impI)
        fix i assume "i < length cs"
        then have i: "i < Suc (length rest)" by (simp add: cs)
        have "out ! i =
            (if i = 0 then START @ get_control_data tr @ '',m=1;'' @ c @ END'
             else if i < length rest then START @ ''m=1;'' @ rest ! (i - 1) @ END'
             else START @ ''m=0;'' @ rest ! (i - 1) @ END')"
          unfolding out'
          using framed_nth[OF rne i, of "START @ get_control_data tr @ '',m=1;'' @ c @ END'"
              "\<lambda>x. START @ ''m=1;'' @ x @ END'" "\<lambda>x. START @ ''m=0;'' @ x @ END'"]
          by simp
        then show "out ! i = START @ (if i = 0 then get_control_data tr @ '','' else []) @ ''m=''
          @ bool_d (Suc i < length cs) @ '';'' @ cs ! i @ END'"
          using i rne by (cases i) (auto simp: cs bool_d_def)
      qed
      have "length out = max 1 (length cs)" using rne by (cases rest) (simp_all add: out' cs)
      moreover have "\<not> length e \<le> n"
        using short rne by simp
      moreover have "last out = START @ ''m=0;'' @ last cs @ END'"
        using rne by (simp add: out' cs)
      moreover have "length cs \<noteq> 1" using rne by (simp add: cs)
      ultimately show ?thesis using nth full by simp
    qed
  qed
  show ?thesis
    using c1 c2 c3 rest
    unfolding Let_def cs_def e_def n_def out_def
    by blast
qed

text \<open>
  The theorem at the chunk size 4 and a payload of six bytes, whose base64 text
  has eight characters: two sequences, the second one full and flagged \<open>m=0\<close>.
\<close>

theorem get_chunks_continuation_flags_witness:
  "0 < (4 :: int)
   \<and> nat 4 dvd length (encode example_transmission)
   \<and> get_chunks example_transmission 4 ! 0 = START @ ''a=T,f=32,t=d,z=0,o=z,C=1,m=1;AQID'' @ END'
   \<and> last (get_chunks example_transmission 4) = START @ ''m=0;BAUG'' @ END'
   \<and> length (get_chunks example_transmission 4) = 2"
proof -
  have s: "slices (nat 4) (encode example_transmission) = [''AQID'', ''BAUG'']"
    by (simp add: example_encode slices_Cons)
  have len: "length (encode example_transmission) = 8"
    by (simp add: example_encode)
  have d: "nat 4 dvd length (encode example_transmission)"
    by (simp add: len)
  have ne: "encode example_transmission \<noteq> []"
    by (simp add: example_encode)
  have "length (get_chunks example_transmission 4) = 2
      \<and> get_chunks example_transmission 4 ! 0
          = START @ get_control_data example_transmission @ '',m=1;AQID'' @ END'
      \<and> last (get_chunks example_transmission 4) = START @ ''m=0;BAUG'' @ END'"
    using get_chunks_continuation_flags [of 4 example_transmission] d ne
    unfolding Let_def s
    by (simp add: bool_d_def)
  then show ?thesis
    using d by (simp add: example_control_data)
qed

text \<open>
  Claim C10. A transmission whose base64 text is empty yields exactly one escape
  sequence, whatever the chunk size: the control data, \<open>m=0\<close> and an empty
  payload section.
\<close>

theorem get_chunks_empty_payload:
  assumes "encode tr = []"
  shows "get_chunks tr sz = [START @ get_control_data tr @ '',m=0;'' @ [] @ END']"
  using assms by (simp add: get_chunks_empty)

theorem get_chunks_empty_payload_witness:
  "encode empty_transmission = []
   \<and> get_chunks empty_transmission 4096 = [START @ ''a=T,f=32,t=d,z=0,o=z,C=1,m=0;'' @ END']"
proof -
  have e: "encode empty_transmission = []"
    by (simp add: encode_def empty_transmission_def)
  have c: "get_control_data empty_transmission = ''a=T,f=32,t=d,z=0,o=z,C=1''"
    by code_simp
  show ?thesis
    using get_chunks_empty_payload [OF e, of 4096] e by (simp add: c)
qed

section \<open>Serialising control data: \<open>Transmission.get_control_data\<close>\<close>

lemma asdict_fields: "asdict cd = map (\<lambda>k. (k, control_field cd k)) control_keys"
  by (simp add: asdict_def control_keys_def control_field_def)

lemma get_control_data_keys:
  "get_control_data tr =
     join '','' (map (\<lambda>k. k @ ''='' @ the (control_field (control tr) k)) (emitted_keys (control tr)))"
  by (simp add: get_control_data_def asdict_fields emitted_keys_def filter_map comp_def)

lemma new_Transmission_control: "control (new_Transmission zc cd p) = cd"
  by (cases cd) (auto simp add: new_Transmission_def compress_def Let_def)

lemma png_fields:
  "control_field (new_ControlData a (Some f_PNG) t s v z ob C c r) ''s'' = None"
  "control_field (new_ControlData a (Some f_PNG) t s v z ob C c r) ''v'' = None"
  by (simp_all add: new_ControlData_def ControlData_post_init_def control_field_def)

lemma png_not_emitted:
  "''s'' \<notin> set (emitted_keys (new_ControlData a (Some f_PNG) t s v z ob C c r))"
  "''v'' \<notin> set (emitted_keys (new_ControlData a (Some f_PNG) t s v z ob C c r))"
  unfolding emitted_keys_def set_filter using png_fields[of a t s v z ob C c r] by simp_all

text \<open>
  Claim C7. The serialised control data is the list of \<open>key=value\<close> items joined
  by commas, one item for each key whose field is not \<open>None\<close>, the keys in the
  fixed order \<open>a f t s v z o C c r\<close>. Control data constructed with the PNG format
  (\<open>f=100\<close>) has no \<open>s\<close> and no \<open>v\<close> among its emitted keys, also once a
  transmission has been built from it.
\<close>

theorem get_control_data_fixed_order:
  "get_control_data tr =
     join '','' (map (\<lambda>k. k @ ''='' @ the (control_field (control tr) k)) (emitted_keys (control tr)))
   \<and> emitted_keys cd = filter (\<lambda>k. control_field cd k \<noteq> None)
        [''a'', ''f'', ''t'', ''s'', ''v'', ''z'', ''o'', ''C'', ''c'', ''r'']
   \<and> ''s'' \<notin> set (emitted_keys (new_ControlData a (Some f_PNG) t s v z ob C c r))
   \<and> ''v'' \<notin> set (emitted_keys (new_ControlData a (Some f_PNG) t s v z ob C c r))
   \<and> ''s'' \<notin> set (emitted_keys (control (new_Transmission zc (new_ControlData a (Some f_PNG) t s v z ob C c r) p)))
   \<and> ''v'' \<notin> set (emitted_keys (control (new_Transmission zc (new_ControlData a (Some f_PNG) t s v z ob C c r) p)))"
proof -
  have 1: "emitted_keys cd = filter (\<lambda>k. control_field cd k \<noteq> None)
        [''a'', ''f'', ''t'', ''s'', ''v'', ''z'', ''o'', ''C'', ''c'', ''r'']"
    by (simp only: emitted_keys_def control_keys_def)
  show ?thesis
    unfolding new_Transmission_control
    using get_control_data_keys[of tr] 1 png_not_emitted[of a t s v z ob C c r]
    by blast
qed

text \<open>
  On control data built for PNG with \<open>s=5\<close> and \<open>v=7\<close> given: neither key is
  written, and \<open>o\<close>, \<open>r\<close> (both \<open>None\<close>) are left out.
\<close>

theorem get_control_data_fixed_order_witness:
  "get_control_data \<lparr>control = png_example, payload = [], compressed = False\<rparr>
     = ''a=T,f=100,t=d,z=-1,C=1,c=30''
   \<and> emitted_keys png_example = [''a'', ''f'', ''t'', ''z'', ''C'', ''c'']"
proof -
  have k: "emitted_keys png_example = [''a'', ''f'', ''t'', ''z'', ''C'', ''c'']"
    by code_simp
  have v: "map (\<lambda>k. k @ ''='' @ the (control_field png_example k)) [''a'', ''f'', ''t'', ''z'', ''C'', ''c'']
     = [''a=T'', ''f=100'', ''t=d'', ''z=-1'', ''C=1'', ''c=30'']"
    by code_simp
  have g: "get_control_data \<lparr>control = png_example, payload = [], compressed = False\<rparr> =
     join '','' (map (\<lambda>k. k @ ''='' @ the (control_field (control \<lparr>control = png_example, payload = [], compressed = False\<rparr>) k))
        (emitted_keys (control \<lparr>control = png_example, payload = [], compressed = False\<rparr>)))"
    by (rule get_control_data_fixed_order [THEN conjunct1])
  have c: "control \<lparr>control = png_example, payload = [], compressed = False\<rparr> = png_example"
    by simp
  show ?thesis
    unfolding g c k v by simp
qed

section \<open>Compression: \<open>Transmission.compress\<close> and \<open>decompress\<close>\<close>

lemma compress_noop:
  "\<not> (cd_t (control tr) = Some t_DIRECT \<and> \<not> compressed tr) \<Longrightarrow> compress zc tr = tr"
  by (auto simp add: compress_def)

lemma compress_direct:
  "cd_t (control tr) = Some t_DIRECT \<Longrightarrow> \<not> compressed tr \<Longrightarrow>
   compress zc tr = tr\<lparr>payload := zc (payload tr),
                          control := (control tr)\<lparr>cd_o := Some o_ZLIB\<rparr>, compressed := True\<rparr>"
  by (simp add: compress_def)

lemma compress_idem: "compress zc (compress zc tr) = compress zc tr"
  by (simp add: compress_def)

lemma decompress_noop:
  "\<not> (cd_t (control tr) = Some t_DIRECT \<and> compressed tr) \<Longrightarrow> decompress zd tr = Inr tr"
  by (auto simp add: decompress_def)

lemma decompress_compress:
  assumes rt: "\<forall>p. zd (zc p) = Some p"
    and d: "cd_t (control tr) = Some t_DIRECT" and u: "\<not> compressed tr"
  shows "decompress zd (compress zc tr) = Inr (tr\<lparr>control := (control tr)\<lparr>cd_o := None\<rparr>\<rparr>)"
  using rt d u by (simp add: compress_def decompress_def Let_def)

lemma new_Transmission_cases:
  "new_Transmission zc cd p =
     (if cd_o cd = Some o_ZLIB \<and> cd_t cd = Some t_DIRECT
      then \<lparr>control = cd, payload = zc p, compressed = True\<rparr>
      else \<lparr>control = cd, payload = p, compressed = False\<rparr>)"
  by (cases cd) (auto simp add: new_Transmission_def compress_def Let_def)

lemma decompress_compress_new:
  assumes rt: "\<forall>p. zd (zc p) = Some p" and d: "cd_t cd = Some t_DIRECT"
  shows "decompress zd (compress zc (new_Transmission zc cd p))
           = Inr \<lparr>control = cd\<lparr>cd_o := None\<rparr>, payload = p, compressed = False\<rparr>"
  using rt d by (simp add: new_Transmission_cases compress_def decompress_def Let_def)

text \<open>
  Claim C8. \<open>compress\<close> changes a transmission only when its medium is \<open>direct\<close>
  and it is not compressed yet (then the payload is compressed, \<open>o\<close> is set and the
  flag raised); otherwise it returns the transmission as it is, so compressing
  twice is compressing once. \<open>decompress\<close> returns the transmission as it is unless
  the medium is \<open>direct\<close> and the flag is raised, and decompressing twice is
  decompressing once. With a codec whose decompression undoes its compression,
  \<open>decompress\<close> after \<open>compress\<close> gives back the payload of every direct
  transmission that was not compressed, and the payload every direct transmission
  was constructed from.
\<close>

theorem compress_decompress_guards:
  assumes "\<forall>p. zd (zc p) = Some p"
  shows "(\<not> (cd_t (control tr) = Some t_DIRECT \<and> \<not> compressed tr) \<longrightarrow> compress zc tr = tr)
    \<and> (cd_t (control tr) = Some t_DIRECT \<and> \<not> compressed tr \<longrightarrow>
         payload (compress zc tr) = zc (payload tr) \<and> compressed (compress zc tr)
         \<and> cd_o (control (compress zc tr)) = Some o_ZLIB)
    \<and> compress zc (compress zc tr) = compress zc tr
    \<and> (\<not> (cd_t (control tr) = Some t_DIRECT \<and> compressed tr) \<longrightarrow> decompress zd tr = Inr tr)
    \<and> (\<forall>tr'. decompress zd tr = Inr tr' \<longrightarrow> decompress zd tr' = Inr tr')
    \<and> (cd_t (control tr) = Some t_DIRECT \<and> \<not> compressed tr \<longrightarrow>
         (\<exists>tr'. decompress zd (compress zc tr) = Inr tr' \<and> payload tr' = payload tr
                \<and> \<not> compressed tr'))
    \<and> (cd_t cd = Some t_DIRECT \<longrightarrow>
         (\<exists>tr'. decompress zd (compress zc (new_Transmission zc cd p)) = Inr tr'
                \<and> payload tr' = p \<and> \<not> compressed tr'))"
proof -
  have twice: "\<forall>tr'. decompress zd tr = Inr tr' \<longrightarrow> decompress zd tr' = Inr tr'"
    by (auto simp add: decompress_def Let_def split: if_splits option.splits)
  show ?thesis
    using compress_noop[of tr zc] compress_direct[of tr zc] compress_idem[of zc tr]
      decompress_noop[of tr zd] twice decompress_compress[where zd=zd and zc=zc and tr=tr, OF assms]
      decompress_compress_new[where zd=zd and zc=zc and cd=cd and p=p, OF assms]
    by simp
qed

text \<open>The theorem at the marker codec and a direct transmission of three bytes.\<close>

theorem compress_decompress_guards_witness:
  "(\<forall>p. marker_decompress (marker_compress p) = Some p)
   \<and> payload (compress marker_compress direct_uncompressed) = [0x78, 1, 2, 3]
   \<and> compress marker_compress (compress marker_compress direct_uncompressed)
       = compress marker_compress direct_uncompressed
   \<and> (\<exists>tr'. decompress marker_decompress (compress marker_compress direct_uncompressed) = Inr tr'
             \<and> payload tr' = [1, 2, 3] \<and> \<not> compressed tr')"
proof -
  have rt: "\<forall>p. marker_decompress (marker_compress p) = Some p"
    by (simp add: marker_compress_def marker_decompress_def)
  have d: "cd_t (control direct_uncompressed) = Some t_DIRECT"
    by (simp add: direct_uncompressed_def default_ControlData_def new_ControlData_def
        ControlData_post_init_def)
  have u: "\<not> compressed direct_uncompressed"
    by (simp add: direct_uncompressed_def)
  have p: "payload direct_uncompressed = [1, 2, 3]"
    by (simp add: direct_uncompressed_def)
  show ?thesis
    using compress_decompress_guards [where zd=marker_decompress and zc=marker_compress and tr=direct_uncompressed, OF rt] rt d u p
    by (simp add: marker_compress_def)
qed

section \<open>Animation: the \<open>z_index\<close> argument\<close>

text \<open>
  Claim C9. \<open>_display_animated\<close> passes \<open>z_index\<close> as \<open>None\<close> exactly when the
  detected Kitty version is above \<open>(0, 25, 0)\<close>; for a version at or below it
  (also for the empty tuple of a terminal that is not Kitty) the argument is not
  passed at all. Every other keyword argument is passed on unchanged.
\<close>

theorem display_animated_z_index:
  "(tuple_gt (KITTY_VERSION cls) [0, 25, 0] \<longrightarrow>
      display_animated_kwargs cls kwargs ''z_index'' = Some None)
   \<and> (tuple_le (KITTY_VERSION cls) [0, 25, 0] \<longrightarrow>
      display_animated_kwargs cls kwargs ''z_index'' = None)
   \<and> (tuple_gt (KITTY_VERSION cls) [0, 25, 0] \<or> tuple_le (KITTY_VERSION cls) [0, 25, 0])
   \<and> (\<forall>k. k \<noteq> ''z_index'' \<longrightarrow> display_animated_kwargs cls kwargs k = kwargs k)"
  by (simp add: display_animated_kwargs_def tuple_le_def tuple_gt_def)

text \<open>The versions 0.25.1, 0.25.0 and the empty tuple, with \<open>z_index=5\<close> given.\<close>

theorem display_animated_z_index_witness:
  "tuple_gt [0, 25, 1] [0, 25, 0]
   \<and> display_animated_kwargs (KittyImage_initial\<lparr>KITTY_VERSION := [0, 25, 1]\<rparr>)
        [''z_index'' \<mapsto> Some (5 :: int)] ''z_index'' = Some None
   \<and> tuple_le [0, 25, 0] [0, 25, 0]
   \<and> display_animated_kwargs (KittyImage_initial\<lparr>KITTY_VERSION := [0, 25, 0]\<rparr>)
        [''z_index'' \<mapsto> Some (5 :: int)] ''z_index'' = None
   \<and> tuple_le [] [0, 25, 0]
   \<and> display_animated_kwargs KittyImage_initial
        [''z_index'' \<mapsto> Some (5 :: int)] ''z_index'' = None"
proof -
  have a: "tuple_gt [0, 25, 1] [0, 25, 0]" by (simp add: tuple_gt_def)
  have b: "tuple_le [0, 25, 0] [0, 25, 0]" by (simp add: tuple_le_def)
  have c: "tuple_le [] [0, 25, 0]" by (simp add: tuple_le_def)
  show ?thesis
    using display_animated_z_index [of "KittyImage_initial\<lparr>KITTY_VERSION := [0, 25, 1]\<rparr>" "[''z_index'' \<mapsto> Some (5 :: int)]"]
      display_animated_z_index [of "KittyImage_initial\<lparr>KITTY_VERSION := [0, 25, 0]\<rparr>" "[''z_index'' \<mapsto> Some (5 :: int)]"]
      display_animated_z_index [of "KittyImage_initial" "[''z_index'' \<mapsto> Some (5 :: int)]"]
      a b c
    by (simp add: KittyImage_initial_def)
qed

section \<open>Capability detection: caching\<close>

lemma query_terminal_after:
  "query_terminal q tt = (case replies tt of [] \<Rightarrow> [] | r # _ \<Rightarrow> r, after_query q tt)"
  by (cases tt) (auto simp: query_terminal_def after_query_def split: list.splits)

lemma kitty_cached:
  "kitty_supported kc \<noteq> PyNone \<Longrightarrow> kitty_is_supported kc tt = (Inr (kitty_supported kc), kc, tt)"
  by (simp add: kitty_is_supported_def)

lemma iterm2_cached:
  "iterm2_supported ic \<noteq> PyNone \<Longrightarrow> iterm2_is_supported ic tt = (Inr (iterm2_supported ic), ic, tt)"
  by (simp add: iterm2_is_supported_def)

lemma kitty_times_cached:
  "kitty_supported kc \<noteq> PyNone \<Longrightarrow>
   kitty_is_supported_times n kc tt = (replicate n (Inr (kitty_supported kc)), kc, tt)"
  by (induction n) (simp_all add: kitty_cached)

lemma iterm2_times_cached:
  "iterm2_supported ic \<noteq> PyNone \<Longrightarrow>
   iterm2_is_supported_times n ic tt = (replicate n (Inr (iterm2_supported ic)), ic, tt)"
  by (induction n) (simp_all add: iterm2_cached)

lemma kitty_identify_state:
  "kitty_identify r c = (Inr v, c') \<Longrightarrow> kitty_supported c' = v"
  by (auto simp: kitty_identify_def Let_def split: sum.splits)

lemma kitty_result_state:
  "kitty_is_supported kc tt = (Inr v, kc', tt') \<Longrightarrow> kitty_supported kc' = v"
  by (auto simp: kitty_is_supported_def Let_def split: if_splits prod.splits dest: kitty_identify_state)

lemma iterm2_result_state:
  "iterm2_is_supported ic tt = (Inr v, ic', tt') \<Longrightarrow> iterm2_supported ic' = v"
  by (auto simp: iterm2_is_supported_def Let_def
      split: if_splits prod.splits sum.splits option.splits list.splits)

lemma kitty_probe_written:
  "kitty_supported kc = PyNone \<Longrightarrow>
   take (Suc (length (written tt))) (written (snd (snd (kitty_is_supported kc tt))))
     = written tt @ [kitty_probe]"
  by (auto simp: kitty_is_supported_def query_terminal_def Let_def split: prod.splits list.splits)

lemma iterm2_query_written:
  "iterm2_supported ic = PyNone \<Longrightarrow>
   written (snd (snd (iterm2_is_supported ic tt))) = written tt @ [iterm2_query]"
  by (auto simp: iterm2_is_supported_def query_terminal_def Let_def
      split: prod.splits list.splits sum.splits option.splits)

text \<open>
  Claim C3. With \<open>_supported\<close> resolved (not \<open>None\<close>), any number of calls of
  \<open>is_supported\<close> return the stored value and leave class and terminal as they
  were: nothing is written. A call that returns a definite \<open>True\<close> or \<open>False\<close>
  leaves such a state, so every later call returns that value without a query.
  Once \<open>_supported\<close> is set back to \<open>None\<close>, the next call writes its query again.
\<close>

theorem is_supported_cached:
  "(kitty_supported kc \<noteq> PyNone \<longrightarrow>
      kitty_is_supported_times n kc tt = (replicate n (Inr (kitty_supported kc)), kc, tt))
   \<and> (iterm2_supported ic \<noteq> PyNone \<longrightarrow>
      iterm2_is_supported_times n ic tt = (replicate n (Inr (iterm2_supported ic)), ic, tt))
   \<and> (kitty_is_supported kc tt = (Inr (PyBool b), kc', tt') \<longrightarrow>
      kitty_is_supported_times n kc' tt' = (replicate n (Inr (PyBool b)), kc', tt'))
   \<and> (iterm2_is_supported ic tt = (Inr (PyBool b), ic', tt') \<longrightarrow>
      iterm2_is_supported_times n ic' tt' = (replicate n (Inr (PyBool b)), ic', tt'))
   \<and> take (Suc (length (written tt)))
        (written (snd (snd (kitty_is_supported (kc\<lparr>kitty_supported := PyNone\<rparr>) tt))))
      = written tt @ [kitty_probe]
   \<and> written (snd (snd (iterm2_is_supported (ic\<lparr>iterm2_supported := PyNone\<rparr>) tt)))
      = written tt @ [iterm2_query]"
proof -
  have k: "kitty_is_supported kc tt = (Inr (PyBool b), kc', tt') \<longrightarrow>
      kitty_is_supported_times n kc' tt' = (replicate n (Inr (PyBool b)), kc', tt')"
    using kitty_result_state[of kc tt "PyBool b" kc' tt'] kitty_times_cached[of kc' n tt']
    by auto
  have i: "iterm2_is_supported ic tt = (Inr (PyBool b), ic', tt') \<longrightarrow>
      iterm2_is_supported_times n ic' tt' = (replicate n (Inr (PyBool b)), ic', tt')"
    using iterm2_result_state[of ic tt "PyBool b" ic' tt'] iterm2_times_cached[of ic' n tt']
    by auto
  show ?thesis
    using k i kitty_times_cached[of kc n tt] iterm2_times_cached[of ic n tt]
      kitty_probe_written[of "kc\<lparr>kitty_supported := PyNone\<rparr>" tt]
      iterm2_query_written[of "ic\<lparr>iterm2_supported := PyNone\<rparr>" tt]
    by simp
qed


text \<open>Three calls on a class resolved to \<open>False\<close>, two on one resolved to \<open>True\<close>.\<close>

theorem is_supported_cached_witness:
  "kitty_supported (KittyImage_initial\<lparr>kitty_supported := PyBool False\<rparr>) \<noteq> PyNone
   \<and> kitty_is_supported_times 3 (KittyImage_initial\<lparr>kitty_supported := PyBool False\<rparr>)
         \<lparr>written = [], replies = [kitty_probe_reply]\<rparr>
       = ([Inr (PyBool False), Inr (PyBool False), Inr (PyBool False)],
          KittyImage_initial\<lparr>kitty_supported := PyBool False\<rparr>,
          \<lparr>written = [], replies = [kitty_probe_reply]\<rparr>)
   \<and> iterm2_supported (ITerm2Image_initial\<lparr>iterm2_supported := PyBool True\<rparr>) \<noteq> PyNone
   \<and> iterm2_is_supported_times 2 (ITerm2Image_initial\<lparr>iterm2_supported := PyBool True\<rparr>)
         \<lparr>written = [], replies = []\<rparr>
       = ([Inr (PyBool True), Inr (PyBool True)],
          ITerm2Image_initial\<lparr>iterm2_supported := PyBool True\<rparr>,
          \<lparr>written = [], replies = []\<rparr>)"
proof -
  have k: "kitty_supported (KittyImage_initial\<lparr>kitty_supported := PyBool False\<rparr>) \<noteq> PyNone"
    by simp
  have i: "iterm2_supported (ITerm2Image_initial\<lparr>iterm2_supported := PyBool True\<rparr>) \<noteq> PyNone"
    by simp
  have r3: "replicate 3 x = [x, x, x]" for x :: "error + support"
    by (simp add: numeral_3_eq_3)
  have r2: "replicate 2 x = [x, x]" for x :: "error + support"
    by (simp add: numeral_2_eq_2)
  show ?thesis
    using is_supported_cached [of "KittyImage_initial\<lparr>kitty_supported := PyBool False\<rparr>" 3
        "\<lparr>written = [], replies = [kitty_probe_reply]\<rparr>"]
      is_supported_cached [where ic = "ITerm2Image_initial\<lparr>iterm2_supported := PyBool True\<rparr>"
        and n = 2 and tt = "\<lparr>written = [], replies = []\<rparr>"]
      k i
    by (simp add: r3 r2)
qed

section \<open>Capability detection: no response\<close>

lemma kitty_timeout:
  assumes "kitty_supported kc = PyNone" and "times_out tt"
  shows "kitty_is_supported kc tt
           = (Inr PyEmptyBytes, kc\<lparr>kitty_supported := PyEmptyBytes\<rparr>, after_query kitty_probe tt)"
  using assms
  by (auto simp: kitty_is_supported_def query_terminal_after times_out_def truthy_def Let_def
      split: list.splits)

lemma iterm2_timeout:
  assumes "iterm2_supported ic = PyNone" and "times_out tt"
  shows "iterm2_is_supported ic tt
           = (Inr (PyBool False), ic\<lparr>iterm2_supported := PyBool False\<rparr>, after_query iterm2_query tt)"
  using assms
  by (auto simp: iterm2_is_supported_def query_terminal_after times_out_def decode_def is_ascii_def
      Let_def split: list.splits)

lemma kitty_probe_failed:
  assumes "kitty_supported kc = PyNone" and "replies tt = r # rs" and "r \<noteq> []"
    and "rpartition0 ESC r \<noteq> kitty_probe_ok"
  shows "kitty_is_supported kc tt
           = (Inr (PyBool False), kc\<lparr>kitty_supported := PyBool False\<rparr>, after_query kitty_probe tt)"
  using assms
  by (auto simp: kitty_is_supported_def query_terminal_after truthy_def Let_def)

text \<open>
  Claim C4, as the code has it. A probe that gets no response resolves to a false
  value and that value is stored: \<open>KittyImage\<close> stores the empty bytes,
  \<open>ITerm2Image\<close> stores \<open>False\<close>, and the calls after it return the stored value
  with the one query of the first call as the only one written. A response to the
  Kitty probe that is not the expected acknowledgement is stored as \<open>False\<close> in the
  same way.
\<close>

theorem timeout_is_cached:
  "(kitty_supported kc = PyNone \<and> times_out tt \<longrightarrow>
      kitty_is_supported_times (Suc n) kc tt
        = (replicate (Suc n) (Inr PyEmptyBytes), kc\<lparr>kitty_supported := PyEmptyBytes\<rparr>,
           after_query kitty_probe tt)
      \<and> \<not> truthy PyEmptyBytes)
   \<and> (iterm2_supported ic = PyNone \<and> times_out tt \<longrightarrow>
      iterm2_is_supported_times (Suc n) ic tt
        = (replicate (Suc n) (Inr (PyBool False)), ic\<lparr>iterm2_supported := PyBool False\<rparr>,
           after_query iterm2_query tt))
   \<and> (kitty_supported kc = PyNone \<and> replies tt = r # rs \<and> r \<noteq> []
       \<and> rpartition0 ESC r \<noteq> kitty_probe_ok \<longrightarrow>
      kitty_is_supported_times (Suc n) kc tt
        = (replicate (Suc n) (Inr (PyBool False)), kc\<lparr>kitty_supported := PyBool False\<rparr>,
           after_query kitty_probe tt))
   \<and> written (after_query kitty_probe tt) = written tt @ [kitty_probe]
   \<and> written (after_query iterm2_query tt) = written tt @ [iterm2_query]"
proof -
  have a: "kitty_supported kc = PyNone \<and> times_out tt \<longrightarrow>
      kitty_is_supported_times (Suc n) kc tt
        = (replicate (Suc n) (Inr PyEmptyBytes), kc\<lparr>kitty_supported := PyEmptyBytes\<rparr>,
           after_query kitty_probe tt)"
    using kitty_times_cached[of "kc\<lparr>kitty_supported := PyEmptyBytes\<rparr>" n "after_query kitty_probe tt"]
    by (simp add: kitty_timeout)
  have b: "iterm2_supported ic = PyNone \<and> times_out tt \<longrightarrow>
      iterm2_is_supported_times (Suc n) ic tt
        = (replicate (Suc n) (Inr (PyBool False)), ic\<lparr>iterm2_supported := PyBool False\<rparr>,
           after_query iterm2_query tt)"
    using iterm2_times_cached[of "ic\<lparr>iterm2_supported := PyBool False\<rparr>" n "after_query iterm2_query tt"]
    by (simp add: iterm2_timeout)
  have c: "kitty_supported kc = PyNone \<and> replies tt = r # rs \<and> r \<noteq> []
       \<and> rpartition0 ESC r \<noteq> kitty_probe_ok \<longrightarrow>
      kitty_is_supported_times (Suc n) kc tt
        = (replicate (Suc n) (Inr (PyBool False)), kc\<lparr>kitty_supported := PyBool False\<rparr>,
           after_query kitty_probe tt)"
    using kitty_times_cached[of "kc\<lparr>kitty_supported := PyBool False\<rparr>" n "after_query kitty_probe tt"]
    by (simp add: kitty_probe_failed)
  show ?thesis
    using a b c by (simp add: truthy_def after_query_def)
qed

text \<open>Two calls on a terminal that never answers.\<close>

theorem timeout_is_cached_witness:
  "kitty_supported KittyImage_initial = PyNone \<and> times_out \<lparr>written = [], replies = []\<rparr>
   \<and> kitty_is_supported_times 2 KittyImage_initial \<lparr>written = [], replies = []\<rparr>
       = ([Inr PyEmptyBytes, Inr PyEmptyBytes], KittyImage_initial\<lparr>kitty_supported := PyEmptyBytes\<rparr>,
          \<lparr>written = [kitty_probe], replies = []\<rparr>)
   \<and> iterm2_supported ITerm2Image_initial = PyNone
   \<and> iterm2_is_supported_times 2 ITerm2Image_initial \<lparr>written = [], replies = []\<rparr>
       = ([Inr (PyBool False), Inr (PyBool False)], ITerm2Image_initial\<lparr>iterm2_supported := PyBool False\<rparr>,
          \<lparr>written = [iterm2_query], replies = []\<rparr>)"
proof -
  have k: "kitty_supported KittyImage_initial = PyNone" by (simp add: KittyImage_initial_def)
  have i: "iterm2_supported ITerm2Image_initial = PyNone" by (simp add: ITerm2Image_initial_def)
  have t: "times_out \<lparr>written = [], replies = []\<rparr>" by (simp add: times_out_def)
  have two: "2 = Suc (Suc 0)" by simp
  show ?thesis
    using timeout_is_cached [where kc = KittyImage_initial and ic = ITerm2Image_initial
        and tt = "\<lparr>written = [], replies = []\<rparr>" and n = "Suc 0"] k i t
    unfolding two
    by (simp add: after_query_def)
qed

text \<open>
  The claim as stated asks for a fresh probe on the call after a timeout. Here the
  first query gets no response and the terminal would answer the next one: the
  second call writes no query and the pending reply is never read.
\<close>

theorem timeout_not_retried_counterexample:
  "iterm2_is_supported_times 2 ITerm2Image_initial
       \<lparr>written = [], replies = [[], identification ''Konsole 22.04.0'' @ da1_start]\<rparr>
     = ([Inr (PyBool False), Inr (PyBool False)],
        ITerm2Image_initial\<lparr>iterm2_supported := PyBool False\<rparr>,
        \<lparr>written = [iterm2_query], replies = [identification ''Konsole 22.04.0'' @ da1_start]\<rparr>)
   \<and> kitty_is_supported_times 2 KittyImage_initial
       \<lparr>written = [], replies = [[], kitty_probe_reply, identification ''kitty(0.21.2)'']\<rparr>
     = ([Inr PyEmptyBytes, Inr PyEmptyBytes],
        KittyImage_initial\<lparr>kitty_supported := PyEmptyBytes\<rparr>,
        \<lparr>written = [kitty_probe], replies = [kitty_probe_reply, identification ''kitty(0.21.2)'']\<rparr>)"
  by (simp add: numeral_2_eq_2 iterm2_is_supported_def kitty_is_supported_def query_terminal_def
      ITerm2Image_initial_def KittyImage_initial_def decode_def is_ascii_def truthy_def Let_def)

section \<open>Capability detection: names and versions\<close>

lemma kitty_konsole_version:
  assumes "kitty_supported kc = PyNone" and "KITTY_VERSION kc = []"
    and "replies tt = r1 # r2 # rs" and "r1 \<noteq> []" and "rpartition0 ESC r1 = kitty_probe_ok"
    and "is_ascii r2" and "re_match kitty_rx r2 = Some [name, version]"
    and "casefold name = ''konsole''" and "version_tuple version = Inr vs"
  shows "kitty_is_supported kc tt
           = (Inr (PyBool (tuple_ge vs [22, 4, 0])),
              kc\<lparr>KONSOLE_VERSION := vs, kitty_supported := PyBool (tuple_ge vs [22, 4, 0])\<rparr>,
              after_query xtversion_query (after_query kitty_probe tt))"
  using assms
  by (simp add: kitty_is_supported_def query_terminal_after truthy_def Let_def after_query_def
      kitty_identify_def decode_def tuple_ge_def)

lemma iterm2_konsole_version:
  assumes "iterm2_supported ic = PyNone"
    and "replies tt = r # rs" and "r \<noteq> []" and "is_ascii r"
    and "re_fullmatch iterm2_rx (rpartition0 ESC r) = Some [name, version]"
    and "lower name = ''konsole''" and "version_tuple (lower version) = Inr vs"
  shows "fst (iterm2_is_supported ic tt) = Inr (PyBool (tuple_ge vs [22, 4, 0]))"
  using assms
  by (simp add: iterm2_is_supported_def query_terminal_after decode_def Let_def tuple_ge_def)

lemma iterm2_konsole_unparsable:
  assumes "iterm2_supported ic = PyNone"
    and "replies tt = r # rs" and "r \<noteq> []" and "is_ascii r"
    and "re_fullmatch iterm2_rx (rpartition0 ESC r) = Some [name, version]"
    and "lower name = ''konsole''" and "version_tuple (lower version) = Inl e"
  shows "iterm2_is_supported ic tt
           = (Inr (PyBool False), ic\<lparr>iterm2_supported := PyBool False\<rparr>, after_query iterm2_query tt)"
  using assms
  by (simp add: iterm2_is_supported_def query_terminal_after decode_def Let_def)

lemma iterm2_other_names:
  assumes "iterm2_supported ic = PyNone"
    and "replies tt = r # rs" and "r \<noteq> []" and "is_ascii r"
    and "re_fullmatch iterm2_rx (rpartition0 ESC r) = Some [name, version]"
    and "lower name = ''iterm2'' \<or> lower name = ''wezterm''"
  shows "iterm2_is_supported ic tt
           = (Inr (PyBool True),
              ic\<lparr>iterm2_supported := PyBool True, term_name := lower name, term_version := lower version\<rparr>,
              after_query iterm2_query tt)"
  using assms
  by (auto simp add: iterm2_is_supported_def query_terminal_after decode_def Let_def)

lemma kitty_unparsable_raises:
  assumes "kitty_supported kc = PyNone"
    and "replies tt = r1 # r2 # rs" and "r1 \<noteq> []" and "rpartition0 ESC r1 = kitty_probe_ok"
    and "is_ascii r2" and "re_match kitty_rx r2 = Some [name, version]"
    and "casefold name = ''kitty'' \<or> casefold name = ''konsole''"
    and "version_tuple version = Inl e"
  shows "kitty_is_supported_times 2 kc tt
           = ([Inl e, Inr (PyBool True)], kc\<lparr>kitty_supported := PyBool True\<rparr>,
              after_query xtversion_query (after_query kitty_probe tt))"
  using assms
  by (auto simp add: numeral_2_eq_2 kitty_is_supported_def query_terminal_after truthy_def Let_def
      after_query_def kitty_identify_def decode_def)

lemma v2108: "version_tuple ''21.08.0'' = Inr [21, 8, 0]"
  by code_simp

lemma v2204: "version_tuple ''22.04.0'' = Inr [22, 4, 0]"
  by code_simp


text \<open>
  Claim C5. Both classes, from the initial state, on the replies a terminal sends:
  after the acknowledged probe \<open>KittyImage\<close> resolves Konsole 21.08.0 to \<open>False\<close>
  and Konsole 22.04.0 and 23.08.1 to \<open>True\<close>, in the form \<open>Konsole 22.04.0\<close> as
  in the form \<open>konsole(22.04.0)\<close>. \<open>ITerm2Image\<close> does the same on the form
  with a space. On the parenthesised form \<open>konsole(22.04.0)\<close> the version group
  of its pattern, \<open>[^\033]+\<close>, runs over the closing parenthesis, which the
  \<open>\)?\<close> after it was to take (the pattern of \<open>KittyImage\<close> has \<open>[^)\033]+\<close>):
  the captured version is \<open>22.04.0)\<close>, \<open>int\<close> raises the \<open>ValueError\<close>, and
  the call resolves to \<open>False\<close> and stores it, where the claim says supported.
\<close>

theorem konsole_replies_resolved:
  "fst (kitty_is_supported KittyImage_initial
          \<lparr>written = [], replies = [kitty_probe_reply, identification ''Konsole 21.08.0'']\<rparr>)
     = Inr (PyBool False)
   \<and> fst (kitty_is_supported KittyImage_initial
          \<lparr>written = [], replies = [kitty_probe_reply, identification ''konsole(21.08.0)'']\<rparr>)
     = Inr (PyBool False)
   \<and> fst (kitty_is_supported KittyImage_initial
          \<lparr>written = [], replies = [kitty_probe_reply, identification ''Konsole 22.04.0'']\<rparr>)
     = Inr (PyBool True)
   \<and> fst (kitty_is_supported KittyImage_initial
          \<lparr>written = [], replies = [kitty_probe_reply, identification ''konsole(22.04.0)'']\<rparr>)
     = Inr (PyBool True)
   \<and> fst (kitty_is_supported KittyImage_initial
          \<lparr>written = [], replies = [kitty_probe_reply, identification ''Konsole 23.08.1'']\<rparr>)
     = Inr (PyBool True)
   \<and> fst (iterm2_is_supported ITerm2Image_initial
          \<lparr>written = [], replies = [identification ''Konsole 21.08.0'' @ da1_start]\<rparr>)
     = Inr (PyBool False)
   \<and> fst (iterm2_is_supported ITerm2Image_initial
          \<lparr>written = [], replies = [identification ''Konsole 22.04.0'' @ da1_start]\<rparr>)
     = Inr (PyBool True)
   \<and> fst (iterm2_is_supported ITerm2Image_initial
          \<lparr>written = [], replies = [identification ''Konsole 23.08.1'' @ da1_start]\<rparr>)
     = Inr (PyBool True)
   \<and> re_fullmatch iterm2_rx (rpartition0 ESC (identification ''konsole(22.04.0)'' @ da1_start))
     = Some [''konsole'', ''22.04.0)'']
   \<and> version_tuple ''22.04.0)'' = Inl ValueError
   \<and> iterm2_is_supported ITerm2Image_initial
          \<lparr>written = [], replies = [identification ''konsole(22.04.0)'' @ da1_start]\<rparr>
     = (Inr (PyBool False), ITerm2Image_initial\<lparr>iterm2_supported := PyBool False\<rparr>,
        \<lparr>written = [iterm2_query], replies = []\<rparr>)"
  by code_simp

section \<open>Capability detection: version texts that are no numbers\<close>

text \<open>
  Claim C6, as the code has it. \<open>ITerm2Image\<close> reads the version as numbers only
  for the name \<open>konsole\<close>: there a version group that is no dot-separated list of
  integers resolves to \<open>False\<close> without an exception, and \<open>False\<close> is stored. For
  the names \<open>iterm2\<close> and \<open>wezterm\<close> the version group is stored as text and
  detection resolves to \<open>True\<close>, whatever the text.
\<close>

theorem iterm2_unparsable_version:
  "iterm2_supported ic = PyNone \<and> replies tt = r # rs \<and> r \<noteq> [] \<and> is_ascii r
     \<and> re_fullmatch iterm2_rx (rpartition0 ESC r) = Some [name, version] \<longrightarrow>
       (lower name = ''konsole'' \<and> version_tuple (lower version) = Inl ValueError \<longrightarrow>
          iterm2_is_supported ic tt
            = (Inr (PyBool False), ic\<lparr>iterm2_supported := PyBool False\<rparr>,
               after_query iterm2_query tt))
     \<and> (lower name = ''iterm2'' \<or> lower name = ''wezterm'' \<longrightarrow>
          iterm2_is_supported ic tt
            = (Inr (PyBool True),
               ic\<lparr>iterm2_supported := PyBool True, term_name := lower name,
                   term_version := lower version\<rparr>,
               after_query iterm2_query tt))"
  using iterm2_konsole_unparsable[of ic tt r rs name version ValueError]
    iterm2_other_names[of ic tt r rs name version]
  by blast

text \<open>A Konsole development version, and an iTerm2 version with a suffix.\<close>

theorem iterm2_unparsable_version_witness:
  "version_tuple (lower ''22.04.0-dev'') = Inl ValueError
   \<and> iterm2_is_supported ITerm2Image_initial
        \<lparr>written = [], replies = [identification ''Konsole 22.04.0-dev'' @ da1_start]\<rparr>
      = (Inr (PyBool False), ITerm2Image_initial\<lparr>iterm2_supported := PyBool False\<rparr>,
         \<lparr>written = [iterm2_query], replies = []\<rparr>)
   \<and> iterm2_is_supported ITerm2Image_initial
        \<lparr>written = [], replies = [identification ''iTerm2 3.4.15beta'' @ da1_start]\<rparr>
      = (Inr (PyBool True),
         \<lparr>iterm2_supported = PyBool True, term_name = ''iterm2'', term_version = ''3.4.15beta''\<rparr>,
         \<lparr>written = [iterm2_query], replies = []\<rparr>)"
proof -
  have i0: "iterm2_supported ITerm2Image_initial = PyNone"
    by (simp add: ITerm2Image_initial_def)
  have a1: "is_ascii (identification ''Konsole 22.04.0-dev'' @ da1_start)"
    and n1: "identification ''Konsole 22.04.0-dev'' @ da1_start \<noteq> []"
    and m1: "re_fullmatch iterm2_rx (rpartition0 ESC (identification ''Konsole 22.04.0-dev'' @ da1_start))
              = Some [''Konsole'', ''22.04.0-dev'']"
    and l1: "lower ''Konsole'' = ''konsole''"
    and v1: "version_tuple (lower ''22.04.0-dev'') = Inl ValueError"
    and a2: "is_ascii (identification ''iTerm2 3.4.15beta'' @ da1_start)"
    and n2: "identification ''iTerm2 3.4.15beta'' @ da1_start \<noteq> []"
    and m2: "re_fullmatch iterm2_rx (rpartition0 ESC (identification ''iTerm2 3.4.15beta'' @ da1_start))
              = Some [''iTerm2'', ''3.4.15beta'']"
    and l2: "lower ''iTerm2'' = ''iterm2''" and l3: "lower ''3.4.15beta'' = ''3.4.15beta''"
    by code_simp+
  have A: "iterm2_is_supported ITerm2Image_initial
        \<lparr>written = [], replies = [identification ''Konsole 22.04.0-dev'' @ da1_start]\<rparr>
      = (Inr (PyBool False), ITerm2Image_initial\<lparr>iterm2_supported := PyBool False\<rparr>,
         \<lparr>written = [iterm2_query], replies = []\<rparr>)"
    using iterm2_unparsable_version [where ic = ITerm2Image_initial
        and tt = "\<lparr>written = [], replies = [identification ''Konsole 22.04.0-dev'' @ da1_start]\<rparr>"
        and r = "identification ''Konsole 22.04.0-dev'' @ da1_start" and rs = "[]"
        and name = "''Konsole''" and version = "''22.04.0-dev''"]
      i0 a1 n1 m1 l1 v1
    by (simp add: after_query_def)
  have B: "iterm2_is_supported ITerm2Image_initial
        \<lparr>written = [], replies = [identification ''iTerm2 3.4.15beta'' @ da1_start]\<rparr>
      = (Inr (PyBool True),
         \<lparr>iterm2_supported = PyBool True, term_name = ''iterm2'', term_version = ''3.4.15beta''\<rparr>,
         \<lparr>written = [iterm2_query], replies = []\<rparr>)"
    using iterm2_unparsable_version [where ic = ITerm2Image_initial
        and tt = "\<lparr>written = [], replies = [identification ''iTerm2 3.4.15beta'' @ da1_start]\<rparr>"
        and r = "identification ''iTerm2 3.4.15beta'' @ da1_start" and rs = "[]"
        and name = "''iTerm2''" and version = "''3.4.15beta''"]
      i0 a2 n2 m2 l2 l3
    by (simp add: after_query_def ITerm2Image_initial_def)
  show ?thesis using A B v1 by simp
qed

text \<open>
  The claim as stated asks for "unsupported" on every version text that does not
  parse. The reply of WezTerm carries a date and a hash; \<open>ITerm2Image\<close> resolves
  it to \<open>True\<close>.
\<close>

theorem unparsable_version_supported_counterexample:
  "re_fullmatch iterm2_rx
       (rpartition0 ESC (identification ''WezTerm 20220319-142410-0fcdea07'' @ da1_start))
     = Some [''WezTerm'', ''20220319-142410-0fcdea07'']
   \<and> version_tuple ''20220319-142410-0fcdea07'' = Inl ValueError
   \<and> fst (iterm2_is_supported ITerm2Image_initial
        \<lparr>written = [], replies = [identification ''WezTerm 20220319-142410-0fcdea07'' @ da1_start]\<rparr>)
     = Inr (PyBool True)"
  by code_simp

text \<open>
  \<open>KittyImage.is_supported\<close> has no handler around \<open>int\<close>: on a version text
  that does not parse the call ends in the \<open>ValueError\<close>, with \<open>_supported\<close> still
  holding the \<open>True\<close> of the probe, which the next call returns
  (\<open>kitty_unparsable_raises\<close> above is the general statement).
\<close>

lemma kitty_unparsable_version_example:
  "re_match kitty_rx (identification ''kitty(0.21.x)'') = Some [''kitty'', ''0.21.x'']
   \<and> version_tuple ''0.21.x'' = Inl ValueError
   \<and> kitty_is_supported_times 2 KittyImage_initial
        \<lparr>written = [], replies = [kitty_probe_reply, identification ''kitty(0.21.x)'']\<rparr>
     = ([Inl ValueError, Inr (PyBool True)],
        KittyImage_initial\<lparr>kitty_supported := PyBool True\<rparr>,
        \<lparr>written = [kitty_probe, xtversion_query], replies = []\<rparr>)"
  by code_simp

section \<open>Rendering by lines: \<open>_render_image\<close> and \<open>_render_image_lines\<close>\<close>

subsection \<open>How many sequences a transmission takes\<close>

lemma length_slices: "0 < n \<Longrightarrow> length (slices n xs) = (length xs + n - 1) div n"
proof (induction n xs rule: slices.induct)
  case (1 n xs)
  show ?case
  proof (cases "xs = []")
    case True
    with 1(2) show ?thesis by simp
  next
    case False
    define m where "m = length xs"
    have pos: "0 < m" using False by (simp add: m_def)
    have split: "m + n - 1 = n + (m - 1)" using pos by arith
    have d: "(m + n - 1) div n = Suc ((m - 1) div n)"
      unfolding split using 1(2) div_add_self1[of n "m - 1"] by simp
    have ih: "length (slices n (drop n xs)) = (length (drop n xs) + n - 1) div n"
      using 1(1) 1(2) False by blast
    have sl: "length (slices n xs) = Suc (length (slices n (drop n xs)))"
      using slices_Cons[OF 1(2) False] by simp
    show ?thesis
    proof (cases "m \<le> n")
      case True
      then have "drop n xs = []" by (simp add: m_def)
      moreover have "(m - 1) div n = 0" using True pos by simp
      ultimately show ?thesis using sl d by (simp add: m_def)
    next
      case gt: False
      then have "length (drop n xs) + n - 1 = m - 1" by (simp add: m_def)
      then show ?thesis using sl d ih by (simp add: m_def)
    qed
  qed
qed


lemma length_b64: "length (standard_b64encode xs) = 4 * ((length xs + 2) div 3)"
  by (induction xs rule: standard_b64encode.induct) (simp_all, arith)

lemma b64c_no_ESC: "b64c n \<noteq> ESC"
proof -
  have "ESC \<notin> set b64_alphabet" by (simp add: b64_alphabet_def ESC_def)
  moreover have "n mod 64 < length b64_alphabet" by (simp add: b64_alphabet_def)
  ultimately show ?thesis unfolding b64c_def by (metis nth_mem)
qed

lemma b64_no_ESC: "ESC \<notin> set (standard_b64encode xs)"
proof -
  have e: "ESC \<noteq> b64c n" for n using b64c_no_ESC[of n] by (rule not_sym)
  have q: "ESC \<noteq> CHR ''=''" by (simp add: ESC_def)
  show ?thesis
    by (induction xs rule: standard_b64encode.induct) (simp_all add: e q)
qed

lemma digit_char_no_ESC: "d < 10 \<Longrightarrow> digit_char d \<noteq> ESC"
proof
  assume d: "d < 10" and "digit_char d = ESC"
  then have "(of_char (char_of (48 + d)) :: nat) = of_char (CHR 0x1B)"
    by (simp add: digit_char_def ESC_def)
  then have "(48 + d) mod 256 = 27" by simp
  with d show False by simp
qed

lemma show_nat_no_ESC: "ESC \<notin> set (show_nat n)"
proof (induction n rule: show_nat.induct)
  case (1 n)
  show ?case
  proof (cases "n < 10")
    case True
    then show ?thesis using digit_char_no_ESC[of n] by (subst show_nat.simps) auto
  next
    case False
    then show ?thesis using 1 digit_char_no_ESC[of "n mod 10"]
      by (subst show_nat.simps) auto
  qed
qed

lemma show_int_no_ESC: "ESC \<notin> set (show_int i)"
  using show_nat_no_ESC by (auto simp: show_int_def ESC_def)


lemma length_get_chunks:
  assumes "0 < n"
  shows "length (get_chunks tr (int n)) = max 1 ((length (encode tr) + n - 1) div n)"
proof (cases "encode tr = []")
  case True
  then show ?thesis using assms by (simp add: get_chunks_empty)
next
  case False
  then obtain c rest where cs: "slices n (encode tr) = c # rest"
    using assms by (cases "slices n (encode tr)") (simp_all add: slices_eq_Nil)
  have "length (get_chunks tr (int n)) = Suc (length rest)"
    unfolding get_chunks_slices[OF assms False] cs by (cases "rest = []") simp_all
  then show ?thesis
    using length_slices[OF assms, of "encode tr"] cs by simp
qed

lemma count_START_skip: "ESC \<notin> set xs \<Longrightarrow> count_START (xs @ ys) = count_START ys"
  by (induction xs) (auto simp: START_def)

lemma count_START_sequence:
  assumes "ESC \<notin> set body"
  shows "count_START (START @ body @ END' @ ys) = Suc (count_START ys)"
proof -
  have 1: "count_START (START @ zs) = Suc (count_START zs)" for zs
    using count_START_skip[of "''_G''" zs] by (simp add: START_def ESC_def)
  have 2: "count_START (END' @ zs) = count_START zs" for zs
    by (cases zs) (simp_all add: END'_def START_def ESC_def BSL_def)
  show ?thesis
    unfolding 1 using count_START_skip[OF assms, of "END' @ ys"] 2[of ys] by simp
qed

lemma count_START_sequences:
  assumes "\<forall>q\<in>set qs. \<exists>body. q = START @ body @ END' \<and> ESC \<notin> set body"
  shows "count_START (concat qs @ ys) = length qs + count_START ys"
  using assms
proof (induction qs)
  case Nil
  then show ?case by simp
next
  case (Cons q qs)
  then obtain body where q: "q = START @ body @ END'" and b: "ESC \<notin> set body" by auto
  have "count_START (concat (q # qs) @ ys) = count_START (START @ body @ END' @ (concat qs @ ys))"
    by (simp add: q)
  also have "\<dots> = Suc (count_START (concat qs @ ys))"
    by (rule count_START_sequence[OF b])
  finally show ?case using Cons by simp
qed

lemma slices_subset: "0 < n \<Longrightarrow> c \<in> set (slices n xs) \<Longrightarrow> set c \<subseteq> set xs"
proof (induction n xs rule: slices.induct)
  case (1 n xs)
  show ?case
  proof (cases "xs = []")
    case True
    with 1 show ?thesis by simp
  next
    case False
    from 1(3) have "c = take n xs \<or> c \<in> set (slices n (drop n xs))"
      using slices_Cons[OF 1(2) False] by simp
    then show ?thesis
      using 1(1)[OF _ 1(2)] False 1(2) set_take_subset[of n xs] set_drop_subset[of n xs]
      by blast
  qed
qed

lemma get_chunks_form:
  assumes n: "0 < n" and cd: "ESC \<notin> set (get_control_data tr)"
    and q: "q \<in> set (get_chunks tr (int n))"
  shows "\<exists>body. q = START @ body @ END' \<and> ESC \<notin> set body"
proof (cases "encode tr = []")
  case True
  then have "q = START @ (get_control_data tr @ '',m=0;'') @ END'"
    using q by (simp add: get_chunks_empty)
  moreover have "ESC \<notin> set (get_control_data tr @ '',m=0;'')"
    using cd by (simp add: ESC_def)
  ultimately show ?thesis by blast
next
  case False
  let ?cs = "slices n (encode tr)"
  have e: "ESC \<notin> set (encode tr)" by (simp add: encode_def b64_no_ESC)
  have sub: "\<And>c. c \<in> set ?cs \<Longrightarrow> ESC \<notin> set c"
    using slices_subset[OF n] e by blast
  obtain c rest where cs: "?cs = c # rest"
    using False n by (cases ?cs) (simp_all add: slices_eq_Nil)
  have c: "ESC \<notin> set c" using sub cs by simp
  have r: "\<And>x. x \<in> set rest \<Longrightarrow> ESC \<notin> set x" using sub cs by simp
  have bl: "\<And>x. x \<in> set (butlast rest) \<Longrightarrow> ESC \<notin> set x" using r in_set_butlastD by metis
  have la: "rest \<noteq> [] \<Longrightarrow> ESC \<notin> set (last rest)" using r by simp
  from q consider
    (first) "q = START @ (get_control_data tr @ '',m='' @ bool_d (rest \<noteq> []) @ '';'' @ c) @ END'"
    | (mid) x where "x \<in> set (butlast rest)" "q = START @ (''m=1;'' @ x) @ END'"
    | (final) "rest \<noteq> []" "q = START @ (''m=0;'' @ last rest) @ END'"
    unfolding get_chunks_slices[OF n False] cs by (auto split: if_splits)
  then show ?thesis
  proof cases
    case first
    moreover have "ESC \<notin> set (get_control_data tr @ '',m='' @ bool_d (rest \<noteq> []) @ '';'' @ c)"
      using cd c by (simp add: ESC_def bool_d_def)
    ultimately show ?thesis by blast
  next
    case mid
    moreover have "ESC \<notin> set (''m=1;'' @ x)" using bl[OF mid(1)] by (simp add: ESC_def)
    ultimately show ?thesis by blast
  next
    case final
    moreover have "ESC \<notin> set (''m=0;'' @ last rest)" using la[OF final(1)] by (simp add: ESC_def)
    ultimately show ?thesis by blast
  qed
qed

lemma count_START_get_chunked:
  assumes "ESC \<notin> set (get_control_data tr)"
  shows "count_START (get_chunked tr @ ys) = length (get_chunks tr 4096) + count_START ys"
proof -
  have "\<forall>q\<in>set (get_chunks tr (int 4096)). \<exists>body. q = START @ body @ END' \<and> ESC \<notin> set body"
    using get_chunks_form[of 4096 tr] assms by simp
  then show ?thesis
    unfolding get_chunked_def using count_START_sequences[of "get_chunks tr 4096" ys] by simp
qed

subsection \<open>The bands\<close>

lemma length_bands: "length (bands n k xs) = k"
  by (induction k arbitrary: xs) simp_all

lemma bands_exact:
  "length xs = k * n \<Longrightarrow> concat (bands n k xs) = xs \<and> (\<forall>b\<in>set (bands n k xs). length b = n)"
proof (induction k arbitrary: xs)
  case 0
  then show ?case by simp
next
  case (Suc k)
  then have "length (drop n xs) = k * n" by simp
  from Suc.IH[OF this] Suc.prems show ?case by simp
qed

lemma join_Cons: "join sep (x # xs) = x @ concat (map (\<lambda>y. sep @ y) xs)"
  by (induction xs arbitrary: x) simp_all

lemma lines_loop_bands:
  assumes "0 \<le> bpl"
  shows "lines_loop zc cd bpl fill c k raw =
     concat (map (\<lambda>b. (fill @ [CHR 0x0A]) @ band_text zc cd c b) (bands (nat bpl) k raw))"
  using assms
  by (induction k arbitrary: raw)
     (simp_all add: read_def Let_def new_Transmission_control band_text_def)

lemma render_image_lines_bands:
  assumes r: "1 \<le> r" and s: "cd_s cd = Some s" and f: "cd_f cd = Some f" and c: "cd_c cd = Some c"
    and bpl: "0 \<le> s * (height div r) * (f div 8)"
  shows "render_image_lines zc raw cd height r =
     Inr (join (spaces c @ [CHR 0x0A])
            (map (band_text zc (cd\<lparr>cd_v := Some (height div r), cd_r := Some 1\<rparr>) c)
               (bands (nat (s * (height div r) * (f div 8))) (nat r) raw))
          @ spaces c)"
proof -
  obtain k where k: "nat r = Suc k" and k': "nat (r - 1) = k"
    using r by (cases "nat r") auto
  show ?thesis
    using r bpl
    unfolding k
    by (simp add: render_image_lines_def s f c Let_def read_def k' new_Transmission_control
        lines_loop_bands join_Cons band_text_def comp_def)
qed

lemma join_no_ESC:
  assumes "ESC \<notin> set sep" and "\<forall>x\<in>set xs. ESC \<notin> set x"
  shows "ESC \<notin> set (join sep xs)"
  using assms by (induction sep xs rule: join.induct) simp_all

lemma asdict_no_ESC:
  assumes "\<And>x. cd_a cd = Some x \<Longrightarrow> ESC \<notin> set x"
    and "\<And>x. cd_t cd = Some x \<Longrightarrow> ESC \<notin> set x"
    and "\<And>x. cd_o cd = Some x \<Longrightarrow> ESC \<notin> set x"
    and "(k, Some v) \<in> set (asdict cd)"
  shows "ESC \<notin> set k \<and> ESC \<notin> set v"
proof -
  have n: "Some v = map_option show_int x \<Longrightarrow> ESC \<notin> set v" for x
    by (cases x) (auto simp: show_int_no_ESC)
  have e: "ESC \<noteq> CHR ''a''" "ESC \<noteq> CHR ''f''" "ESC \<noteq> CHR ''t''" "ESC \<noteq> CHR ''s''" "ESC \<noteq> CHR ''v''"
    "ESC \<noteq> CHR ''z''" "ESC \<noteq> CHR ''o''" "ESC \<noteq> CHR ''C''" "ESC \<noteq> CHR ''c''" "ESC \<noteq> CHR ''r''"
    by (simp_all add: ESC_def)
  from assms(4) show ?thesis
    using assms(1-3) n e by (auto simp add: asdict_def)
qed

lemma get_control_data_no_ESC:
  assumes "\<And>x. cd_a (control tr) = Some x \<Longrightarrow> ESC \<notin> set x"
    and "\<And>x. cd_t (control tr) = Some x \<Longrightarrow> ESC \<notin> set x"
    and "\<And>x. cd_o (control tr) = Some x \<Longrightarrow> ESC \<notin> set x"
  shows "ESC \<notin> set (get_control_data tr)"
proof -
  have "\<forall>x\<in>set (map (\<lambda>(key, val). key @ ''='' @ the val)
                  (filter (\<lambda>(key, val). val \<noteq> None) (asdict (control tr)))). ESC \<notin> set x"
  proof
    fix x assume "x \<in> set (map (\<lambda>(key, val). key @ ''='' @ the val)
                  (filter (\<lambda>(key, val). val \<noteq> None) (asdict (control tr))))"
    then obtain k v where kv: "(k, Some v) \<in> set (asdict (control tr))" and x: "x = k @ ''='' @ v"
      by auto
    from asdict_no_ESC[OF assms kv] show "ESC \<notin> set x" by (simp add: x ESC_def)
  qed
  moreover have "ESC \<notin> set '',''" by (simp add: ESC_def)
  ultimately show ?thesis
    unfolding get_control_data_def by (intro join_no_ESC)
qed

lemma spaces_no_ESC: "ESC \<notin> set (spaces c)"
  by (simp add: spaces_def ESC_def)

lemma count_START_lines:
  assumes z: "cd_z cd \<noteq> None"
    and e: "\<And>b. ESC \<notin> set (get_control_data (new_Transmission zc cd b))"
  shows "count_START (join (spaces c @ [CHR 0x0A]) (map (band_text zc cd c) bs) @ spaces c)
           = sum_list (map (\<lambda>b. length (get_chunks (new_Transmission zc cd b) 4096)) bs)"
proof -
  let ?sep = "spaces c @ [CHR 0x0A]"
  have sep: "ESC \<notin> set ?sep" using spaces_no_ESC[of c] by (simp add: ESC_def)
  have bt: "band_text zc cd c b = get_chunked (new_Transmission zc cd b)" for b
    using z by (auto simp add: band_text_def)
  have fill: "count_START (spaces c) = 0"
    using count_START_skip[OF spaces_no_ESC, of c "[]"] by simp
  have one: "count_START (band_text zc cd c b @ ys)
               = length (get_chunks (new_Transmission zc cd b) 4096) + count_START ys" for b ys
    unfolding bt by (rule count_START_get_chunked[OF e])
  have tail: "count_START (concat (map (\<lambda>y. ?sep @ y) (map (band_text zc cd c) rest)) @ spaces c)
           = sum_list (map (\<lambda>b. length (get_chunks (new_Transmission zc cd b) 4096)) rest)" for rest
  proof (induction rest)
    case Nil
    then show ?case by (simp add: fill)
  next
    case (Cons b rest)
    have "count_START (concat (map (\<lambda>y. ?sep @ y) (map (band_text zc cd c) (b # rest))) @ spaces c)
        = count_START (?sep @ (band_text zc cd c b
            @ (concat (map (\<lambda>y. ?sep @ y) (map (band_text zc cd c) rest)) @ spaces c)))"
      by simp
    also have "\<dots> = count_START (band_text zc cd c b
            @ (concat (map (\<lambda>y. ?sep @ y) (map (band_text zc cd c) rest)) @ spaces c))"
      by (rule count_START_skip[OF sep])
    finally show ?case using Cons by (simp add: one)
  qed
  show ?thesis
  proof (cases bs)
    case Nil
    then show ?thesis by (simp add: fill)
  next
    case (Cons b rest)
    have "join ?sep (map (band_text zc cd c) bs) @ spaces c
        = band_text zc cd c b @ (concat (map (\<lambda>y. ?sep @ y) (map (band_text zc cd c) rest)) @ spaces c)"
      by (simp add: Cons join_Cons comp_def)
    then show ?thesis using tail[of rest] by (simp add: one Cons)
  qed
qed

lemma transmitted_size_padded:
  assumes "rendered_size img = (rw, rh)" and "1 \<le> rh"
  shows "fst (transmitted_size img cell) = fst (chosen_size img cell)
    \<and> rh dvd snd (transmitted_size img cell)
    \<and> snd (chosen_size img cell) \<le> snd (transmitted_size img cell)
    \<and> snd (transmitted_size img cell) < snd (chosen_size img cell) + rh"
proof -
  obtain w h where ch: "chosen_size img cell = (w, h)" by (cases "chosen_size img cell")
  have ts: "transmitted_size img cell = (w, if h mod rh \<noteq> 0 then h - h mod rh + rh else h)"
    using ch assms
    by (simp add: transmitted_size_def chosen_size_def Let_def split: if_splits)
  have d: "rh dvd h - h mod rh" by (simp add: minus_mod_eq_mult_div)
  have m: "0 \<le> h mod rh" "h mod rh < rh" using assms(2) by simp_all
  have nz: "h mod rh \<noteq> 0 \<Longrightarrow> 0 < h mod rh" using m by simp
  have dv: "h mod rh = 0 \<Longrightarrow> rh dvd h" by (simp add: mod_eq_0_iff_dvd)
  show ?thesis
  proof (cases "h mod rh = 0")
    case True
    then show ?thesis unfolding ts ch using dv assms(2) by simp
  next
    case False
    then show ?thesis unfolding ts ch using d m nz by simp
  qed
qed

lemma f_of_mode_cases: "f_of_mode md = 24 \<or> f_of_mode md = 32"
  by (cases md) (simp_all add: f_of_mode_def f_RGB_def f_RGBA_def)

lemma render_image_lines_call:
  assumes m: "render_method_of img = LINES" and rs: "rendered_size img = (rw, rh)"
    and ts: "transmitted_size img cell = (w, h)" and rd: "render_data (w, h) = (md, raw)"
  shows "render_image zc render_data img cell z =
     render_image_lines zc raw
       \<lparr>cd_a = Some a_TRANS_DISP, cd_f = Some (f_of_mode md), cd_t = Some t_DIRECT,
        cd_s = Some w, cd_v = None, cd_z = z, cd_o = Some o_ZLIB, cd_C = Some C_STAY,
        cd_c = Some rw, cd_r = None\<rparr> h rh"
  using f_of_mode_cases[of md]
  by (auto simp add: render_image_def m rs ts rd new_ControlData_def ControlData_post_init_def
      f_PNG_def)

text \<open>
  Claim C2, as the code has it. Take an image rendered with the Lines method on
  \<open>rh \<ge> 1\<close> rows and \<open>rw\<close> columns, \<open>(w, h)\<close> the pixel size that is transmitted
  and \<open>raw\<close> the \<open>w * h\<close> pixels that \<open>_get_render_data\<close> returns. The height
  \<open>h\<close> is the chosen height raised to the next multiple of \<open>rh\<close>. The output is
  the texts of \<open>rh\<close> bands, joined by the fill of \<open>rw\<close> spaces and a newline and
  followed by the fill; the bands make up \<open>raw\<close> and each has
  \<open>w * (h div rh) * bytes_per_pixel\<close> bytes. The text of a band is its
  transmission in chunks: one escape sequence when the base64 text of the payload
  has at most 4096 characters, \<open>\<lceil>length / 4096\<rceil>\<close> sequences otherwise. So the
  number of graphics escape sequences in the output (for \<open>z\<close> not \<open>None\<close>) is the
  sum of the chunk counts of the bands, which is \<open>rh\<close> only when every band fits in
  one chunk.
\<close>

theorem render_lines_bands:
  assumes m: "render_method_of img = LINES" and rs: "rendered_size img = (rw, rh)" and r: "1 \<le> rh"
    and ts: "transmitted_size img cell = (w, h)" and w: "0 \<le> w" and h: "0 \<le> h"
    and rd: "render_data (w, h) = (md, raw)"
    and len: "int (length raw) = w * h * (f_of_mode md div 8)"
  shows "rh dvd h
    \<and> snd (chosen_size img cell) \<le> h \<and> h < snd (chosen_size img cell) + rh
    \<and> (let cd = \<lparr>cd_a = Some a_TRANS_DISP, cd_f = Some (f_of_mode md), cd_t = Some t_DIRECT,
                  cd_s = Some w, cd_v = Some (h div rh), cd_z = z, cd_o = Some o_ZLIB,
                  cd_C = Some C_STAY, cd_c = Some rw, cd_r = Some 1\<rparr>;
             bs = bands (nat (w * (h div rh) * (f_of_mode md div 8))) (nat rh) raw;
             chunks = (\<lambda>b. get_chunks (new_Transmission zc cd b) 4096);
             out = join (spaces rw @ [CHR 0x0A]) (map (band_text zc cd rw) bs) @ spaces rw
         in render_image zc render_data img cell z = Inr out
          \<and> length bs = nat rh \<and> concat bs = raw
          \<and> (\<forall>b\<in>set bs. int (length b) = w * (h div rh) * (f_of_mode md div 8))
          \<and> (\<forall>b\<in>set bs.
                band_text zc cd rw b = (if z = None then clear_seq rw else []) @ concat (chunks b)
                \<and> length (chunks b)
                    = max 1 ((length (encode (new_Transmission zc cd b)) + 4095) div 4096))
          \<and> (z \<noteq> None \<longrightarrow> count_START out = sum_list (map (\<lambda>b. length (chunks b)) bs)))"
proof -
  define B where "B = f_of_mode md div 8"
  define bpl where "bpl = w * (h div rh) * B"
  define cd where "cd = \<lparr>cd_a = Some a_TRANS_DISP, cd_f = Some (f_of_mode md), cd_t = Some t_DIRECT,
                  cd_s = Some w, cd_v = Some (h div rh), cd_z = z, cd_o = Some o_ZLIB,
                  cd_C = Some C_STAY, cd_c = Some rw, cd_r = Some 1\<rparr>"
  define bs where "bs = bands (nat bpl) (nat rh) raw"
  define out where "out = join (spaces rw @ [CHR 0x0A]) (map (band_text zc cd rw) bs) @ spaces rw"
  have pad: "rh dvd h" "snd (chosen_size img cell) \<le> h" "h < snd (chosen_size img cell) + rh"
    using transmitted_size_padded[OF rs r, of cell] ts by simp_all
  have B0: "0 \<le> B" using f_of_mode_cases[of md] by (auto simp: B_def)
  have hd: "0 \<le> h div rh" using h r by (simp add: pos_imp_zdiv_nonneg_iff)
  have bpl0: "0 \<le> bpl" unfolding bpl_def using w hd B0 by simp
  have call: "render_image zc render_data img cell z =
     render_image_lines zc raw
       \<lparr>cd_a = Some a_TRANS_DISP, cd_f = Some (f_of_mode md), cd_t = Some t_DIRECT,
        cd_s = Some w, cd_v = None, cd_z = z, cd_o = Some o_ZLIB, cd_C = Some C_STAY,
        cd_c = Some rw, cd_r = None\<rparr> h rh"
    using m rs ts rd by (rule render_image_lines_call[where render_data = render_data])
  have run: "render_image zc render_data img cell z = Inr out"
    unfolding call out_def bs_def bpl_def B_def cd_def
    using render_image_lines_bands[of rh _ w "f_of_mode md" rw h zc raw] r bpl0
    by (simp add: bpl_def B_def)
  have "h = rh * (h div rh)" using pad(1) by simp
  then have "w * h * B = rh * bpl" unfolding bpl_def by (metis mult.assoc mult.left_commute)
  then have "int (length raw) = int (nat rh * nat bpl)"
    using len r bpl0 by (simp add: B_def)
  then have l: "length raw = nat rh * nat bpl" by linarith
  have ex: "concat bs = raw" "\<forall>b\<in>set bs. length b = nat bpl"
    using bands_exact[OF l] by (simp_all add: bs_def)
  have lens: "\<forall>b\<in>set bs. int (length b) = bpl" using ex(2) bpl0 by simp
  have nb: "length bs = nat rh" by (simp add: bs_def length_bands)
  have bt: "band_text zc cd rw b
      = (if z = None then clear_seq rw else []) @ concat (get_chunks (new_Transmission zc cd b) 4096)" for b
    by (simp add: band_text_def get_chunked_def cd_def)
  have cnt: "length (get_chunks (new_Transmission zc cd b) 4096)
      = max 1 ((length (encode (new_Transmission zc cd b)) + 4095) div 4096)" for b
    using length_get_chunks[of 4096 "new_Transmission zc cd b"] by simp
  have esc: "ESC \<notin> set (get_control_data (new_Transmission zc cd b))" for b
    by (rule get_control_data_no_ESC)
       (simp_all add: new_Transmission_control cd_def a_TRANS_DISP_def t_DIRECT_def o_ZLIB_def ESC_def)
  have count: "z \<noteq> None \<longrightarrow> count_START out
      = sum_list (map (\<lambda>b. length (get_chunks (new_Transmission zc cd b) 4096)) bs)"
    unfolding out_def using count_START_lines[of cd zc rw bs] esc by (simp add: cd_def)
  show ?thesis
    unfolding Let_def
    using pad run nb ex(1) lens bt cnt count
    unfolding out_def bs_def bpl_def B_def cd_def
    by simp
qed

text \<open>
  A 2x3 image on two rows and two columns: the height is raised to 4, the 24 bytes
  fall into two bands of 12, and each band fits in one chunk, so the output holds
  two sequences.
\<close>

theorem render_lines_bands_witness:
  "render_method_of small_image = LINES \<and> rendered_size small_image = (2, 2)
   \<and> transmitted_size small_image None = (2, 4)
   \<and> small_render_data (2, 4) = (RGB, replicate 24 0)
   \<and> int (length (replicate 24 (0 :: byte))) = 2 * 4 * (f_of_mode RGB div 8)
   \<and> (2 :: int) dvd 4
   \<and> bands (nat (2 * (4 div 2) * (f_of_mode RGB div 8))) (nat 2) (replicate 24 (0 :: byte))
       = [replicate 12 0, replicate 12 0]
   \<and> map_sum id count_START
        (render_image marker_compress small_render_data small_image None (Some 0)) = Inr 2"
proof -
  have m: "render_method_of small_image = LINES" and rs: "rendered_size small_image = (2, 2)"
    by (simp_all add: small_image_def)
  have ts: "transmitted_size small_image None = (2, 4)"
    by (simp add: transmitted_size_def get_render_size_def small_image_def Let_def)
  have rd: "small_render_data (2, 4) = (RGB, replicate 24 0)"
    by (simp add: small_render_data_def)
  have len: "int (length (replicate 24 (0 :: byte))) = 2 * 4 * (f_of_mode RGB div 8)"
    by (simp add: f_of_mode_def f_RGB_def)
  have bs: "bands (nat (2 * (4 div 2) * (f_of_mode RGB div 8))) (nat 2) (replicate 24 (0 :: byte))
       = [replicate 12 0, replicate 12 0]"
    by (simp add: f_of_mode_def f_RGB_def numeral_2_eq_2)
  define cd where "cd = \<lparr>cd_a = Some a_TRANS_DISP, cd_f = Some (f_of_mode RGB), cd_t = Some t_DIRECT,
        cd_s = Some 2, cd_v = Some (4 div 2), cd_z = Some 0, cd_o = Some o_ZLIB,
        cd_C = Some C_STAY, cd_c = Some 2, cd_r = Some 1\<rparr>"
  have enc: "length (encode (new_Transmission marker_compress cd (replicate 12 0))) = 20"
    by (simp add: encode_def new_Transmission_cases cd_def marker_compress_def length_b64)
  have nz: "Some (0 :: int) \<noteq> None" by simp
  have r1: "1 \<le> (2 :: int)" and w0: "0 \<le> (2 :: int)" and h0: "0 \<le> (4 :: int)" by simp_all
  note R = render_lines_bands [where zc = marker_compress and z = "Some 0" and img = small_image
        and rw = 2 and rh = 2 and cell = None and w = 2 and h = 4
        and render_data = small_render_data and md = RGB and raw = "replicate 24 0",
        OF m rs r1 ts w0 h0 rd len, unfolded Let_def bs]
  have run: "render_image marker_compress small_render_data small_image None (Some 0)
        = Inr (join (spaces 2 @ [CHR 0x0A])
                 (map (band_text marker_compress cd 2) [replicate 12 0, replicate 12 0]) @ spaces 2)"
    unfolding cd_def using R by blast
  have cnt: "count_START (join (spaces 2 @ [CHR 0x0A])
                 (map (band_text marker_compress cd 2) [replicate 12 0, replicate 12 0]) @ spaces 2)
        = sum_list (map (\<lambda>b. length (get_chunks (new_Transmission marker_compress cd b) 4096))
            [replicate 12 0, replicate 12 0])"
    unfolding cd_def using R nz by blast
  have one: "length (get_chunks (new_Transmission marker_compress cd (replicate 12 0)) 4096) = 1"
    using length_get_chunks[of 4096 "new_Transmission marker_compress cd (replicate 12 0)"]
    unfolding enc by simp
  have "count_START (join (spaces 2 @ [CHR 0x0A])
                 (map (band_text marker_compress cd 2) [replicate 12 0, replicate 12 0]) @ spaces 2) = 2"
    unfolding cnt by (simp add: one)
  then show ?thesis
    using m rs ts rd len bs unfolding run by simp
qed

lemma length_noise: "length (noise n x) = n"
  by (induction n arbitrary: x) (simp_all add: Let_def)

lemma length_zlib_stored: "length (zlib_stored data) = length data + 11"
  by (simp add: zlib_stored_def le16_def be32_def)

lemma zlib_stored_header:
  "take 7 (zlib_stored (noise 3200 1)) = [0x78, 0x9C, 0x01, 0x80, 0x0C, 0x7F, 0xF3]"
  by (simp add: zlib_stored_def le16_def length_noise)

lemma noise_prefix:
  "take 4 (noise (Suc (Suc (Suc (Suc n)))) 1) = [198, 126, 129, 107]"
  by (simp add: Let_def)

lemma noise_first: "take 4 (noise 3200 1) = [198, 126, 129, 107]"
proof -
  have n: "Suc (Suc (Suc (Suc 3196))) = 3200" by simp
  show ?thesis using noise_prefix[of 3196] unfolding n .
qed

lemma zlib_stored_start:
  "take 11 (zlib_stored (noise 3200 1)) = [0x78, 0x9C, 0x01, 0x80, 0x0C, 0x7F, 0xF3, 198, 126, 129, 107]"
proof -
  have h: "le16 (length (noise 3200 1)) = [0x80, 0x0C]"
    "le16 (65535 - length (noise 3200 1)) = [0x7F, 0xF3]"
    by (simp_all add: le16_def length_noise)
  have "take 11 (zlib_stored (noise 3200 1))
      = [0x78, 0x9C, 0x01, 0x80, 0x0C, 0x7F, 0xF3] @ take 4 (noise 3200 1)"
    unfolding zlib_stored_def h by (simp add: length_noise)
  then show ?thesis unfolding noise_first by simp
qed

text \<open>
  The claim as stated counts exactly one escape sequence per row. Here the image
  is 40x20 noise pixels on one row of four columns, in cells of 10x20 pixels: the
  original size is kept, the one band has 3200 bytes, its compressed payload 3211
  bytes and its base64 text 4284 characters, more than one chunk of 4096. The
  output holds two graphics escape sequences for the one row.
\<close>

theorem more_sequences_than_rows_counterexample:
  "rendered_size noise_image = (4, 1)
   \<and> transmitted_size noise_image (Some (10, 20)) = (40, 20)
   \<and> length (snd (noise_render_data (40, 20))) = 40 * 20 * 4
   \<and> map_sum id count_START
        (render_image zlib_stored noise_render_data noise_image (Some (10, 20)) (Some 0)) = Inr 2"
proof -
  let ?raw = "noise 3200 1"
  define cd2 where "cd2 = \<lparr>cd_a = Some a_TRANS_DISP, cd_f = Some (f_of_mode RGBA), cd_t = Some t_DIRECT,
        cd_s = Some 40, cd_v = None, cd_z = Some 0, cd_o = Some o_ZLIB, cd_C = Some C_STAY,
        cd_c = Some 4, cd_r = None\<rparr>"
  define cd3 where "cd3 = cd2\<lparr>cd_v := Some (20 div 1), cd_r := Some 1\<rparr>"
  have m: "render_method_of noise_image = LINES" and rs: "rendered_size noise_image = (4, 1)"
    by (simp_all add: noise_image_def)
  have ts: "transmitted_size noise_image (Some (10, 20)) = (40, 20)"
    by (simp add: transmitted_size_def get_render_size_def noise_image_def Let_def)
  have rd: "noise_render_data (40, 20) = (RGBA, ?raw)"
    by (simp add: noise_render_data_def)
  have call: "render_image zlib_stored noise_render_data noise_image (Some (10, 20)) (Some 0)
      = render_image_lines zlib_stored ?raw cd2 20 1"
    unfolding cd2_def using m rs ts rd
    by (rule render_image_lines_call[where render_data = noise_render_data])
  have f2: "cd_s cd2 = Some 40" "cd_f cd2 = Some 32" "cd_c cd2 = Some 4"
    by (simp_all add: cd2_def f_of_mode_def f_RGBA_def)
  have bands1: "bands 3200 (Suc 0) ?raw = [?raw]"
    by (simp add: length_noise)
  have out: "render_image_lines zlib_stored ?raw cd2 20 1
      = Inr (join (spaces 4 @ [CHR 0x0A]) (map (band_text zlib_stored cd3 4) [?raw]) @ spaces 4)"
    using render_image_lines_bands[of 1 cd2 40 32 4 20 zlib_stored ?raw] f2 bands1
    by (simp add: cd3_def)
  have z: "cd_z cd3 \<noteq> None" by (simp add: cd3_def cd2_def)
  have esc: "ESC \<notin> set (get_control_data (new_Transmission zlib_stored cd3 b))" for b
    by (rule get_control_data_no_ESC)
       (simp_all add: new_Transmission_control cd3_def cd2_def a_TRANS_DISP_def t_DIRECT_def
         o_ZLIB_def ESC_def)
  have enc: "encode (new_Transmission zlib_stored cd3 ?raw) = standard_b64encode (zlib_stored ?raw)"
    by (simp add: encode_def new_Transmission_cases cd3_def cd2_def)
  have el: "length (standard_b64encode (zlib_stored ?raw)) = 4284"
    by (simp add: length_b64 length_zlib_stored length_noise)
  have n: "length (get_chunks (new_Transmission zlib_stored cd3 ?raw) 4096) = 2"
    using length_get_chunks[of 4096 "new_Transmission zlib_stored cd3 ?raw"]
    unfolding enc el by simp
  have c: "count_START (join (spaces 4 @ [CHR 0x0A]) (map (band_text zlib_stored cd3 4) [?raw]) @ spaces 4) = 2"
    using count_START_lines[OF z esc, of 4 "[?raw]"] n by simp
  show ?thesis
    unfolding call out using c rs ts rd by (simp add: length_noise)
qed

end
